theory Spec2Isabelle
  imports Complex_Main "HOL-Library.Sublist"
begin

section \<open>Data model\<close>

text \<open>
  The scanning pipeline of \<^verbatim>\<open>app.py\<close> (class \<^verbatim>\<open>PersonDetector\<close> and the route
  \<^verbatim>\<open>detect_person\<close>) and of \<^verbatim>\<open>person_detector.py\<close> (the command-line variant).

  A frame is a pixel buffer together with the marks drawn on it by \<^verbatim>\<open>cv2.rectangle\<close> and
  \<^verbatim>\<open>cv2.putText\<close>, in drawing order. A face location is the tuple
  \<^verbatim>\<open>(top, right, bottom, left)\<close> of \<^verbatim>\<open>face_recognition.face_locations\<close>.
  Python floats are modelled as reals: a timestamp is the exact quotient.
\<close>

type_synonym box = "int \<times> int \<times> int \<times> int"

datatype mark =
    Rectangle int int int int
  | PutText string int int
  | PutTime real int int

record 'p frame =
  pixels :: 'p
  drawn :: "mark list"

datatype codec = AVC1 | MP4V

text \<open>What one call of \<^verbatim>\<open>cv2.VideoWriter(...)\<close> does: it raises, or it returns a handle whose
  \<^verbatim>\<open>isOpened()\<close> is the given flag.\<close>

datatype attempt = CvRaises | Handle bool

text \<open>What one call of \<^verbatim>\<open>cv2.imwrite(path, frame)\<close> does: it raises (no encoder for the path's
  extension), or it returns whether the file was written.\<close>

datatype saved = ImRaises | ImReturns bool

datatype exn = ZeroDivisionError | CvError

text \<open>A \<^verbatim>\<open>cv2.VideoCapture\<close>: \<^verbatim>\<open>isOpened()\<close>, the four properties as the floats that
  \<^verbatim>\<open>video.get\<close> returns, and the frames that successive \<^verbatim>\<open>video.read()\<close> calls return before
  \<^verbatim>\<open>ret\<close> is false.\<close>

record 'p video =
  isOpened :: bool
  CAP_PROP_FPS :: real
  CAP_PROP_FRAME_WIDTH :: real
  CAP_PROP_FRAME_HEIGHT :: real
  CAP_PROP_FRAME_COUNT :: real
  reads :: "'p list"

text \<open>Python's \<^verbatim>\<open>int(x)\<close> of a float: truncation towards zero.\<close>

definition py_int :: "real \<Rightarrow> int" where
  "py_int x = (if 0 \<le> x then \<lfloor>x\<rfloor> else \<lceil>x\<rceil>)"

text \<open>
  The external capabilities the code calls, as functions (so each is deterministic):
  \<^item> \<open>load_faces path\<close> is \<^verbatim>\<open>face_encodings(load_image_file(path))\<close>: \<open>Inl msg\<close> when
    either call raises, else the encodings found;
  \<^item> \<open>VideoCapture path\<close> and \<open>VideoWriter path fourcc fps (width, height)\<close> are the
    \<^verbatim>\<open>cv2\<close> constructors, \<open>imwrite path\<close> is \<^verbatim>\<open>cv2.imwrite\<close> at that path;
  \<^item> \<open>faces px\<close> is \<^verbatim>\<open>face_locations\<close> zipped with \<^verbatim>\<open>face_encodings\<close> on the RGB copy of the
    frame (one encoding per location, in the library's order);
  \<^item> \<open>face_distance\<close> is the embedding distance of \<^verbatim>\<open>face_recognition\<close>.
\<close>

record ('p, 'e) cv =
  load_faces :: "string \<Rightarrow> string + 'e list"
  VideoCapture :: "string \<Rightarrow> 'p video"
  VideoWriter :: "string \<Rightarrow> codec \<Rightarrow> int \<Rightarrow> int \<times> int \<Rightarrow> attempt"
  imwrite :: "string \<Rightarrow> saved"
  faces :: "'p \<Rightarrow> (box \<times> 'e) list"
  face_distance :: "'e \<Rightarrow> 'e \<Rightarrow> real"

text \<open>The effects of a run, as logs: the paths given to \<^verbatim>\<open>cv2.VideoCapture\<close>, the
  \<^verbatim>\<open>cv2.VideoWriter\<close> attempts, the frames in the output video, the images that \<^verbatim>\<open>cv2.imwrite\<close>
  has written and the directories made by \<^verbatim>\<open>os.makedirs\<close>.\<close>

record 'p world =
  opened :: "string list"
  writers :: "(string \<times> codec) list"
  written :: "'p frame list"
  images :: "(string \<times> 'p frame) list"
  dirs :: "string list"

definition world0 :: "'p world" where
  "world0 = \<lparr>opened = [], writers = [], written = [], images = [], dirs = []\<rparr>"

text \<open>The attributes of a \<^verbatim>\<open>PersonDetector\<close>.\<close>

record 'e detector =
  person_image_path :: string
  video_path :: string
  person_encoding :: "'e option"

definition PersonDetector :: "string \<Rightarrow> string \<Rightarrow> 'e detector" where
  "PersonDetector p v = \<lparr>person_image_path = p, video_path = v, person_encoding = None\<rparr>"

text \<open>The local variables of \<^verbatim>\<open>detect_person_in_video\<close> that the loop updates, with the
  effects so far.\<close>

record 'p locals =
  frame_count :: nat
  detected_frames :: nat
  detection_timestamps :: "real list"
  detection_frame_path :: "string option"
  world :: "'p world"

text \<open>The dictionary returned on success; field \<open>sum_k\<close> is key \<^verbatim>\<open>k\<close>.\<close>

record summary =
  sum_total_frames :: nat
  sum_detected_frames :: nat
  sum_detection_timestamps :: "real list"
  sum_output_video_path :: string
  sum_detection_frame_path :: "string option"

datatype result = Failure string | Success summary

datatype 'a outcome = Raised exn | Returned 'a

section \<open>Library functions\<close>

text \<open>Python's \<^verbatim>\<open>str.replace(old, new)\<close>: leftmost non-overlapping occurrences, left to right;
  with an empty \<^verbatim>\<open>old\<close>, \<^verbatim>\<open>new\<close> goes before every character and at the end.\<close>

function str_replace :: "'a list \<Rightarrow> 'a list \<Rightarrow> 'a list \<Rightarrow> 'a list" where
  "str_replace old new [] = (if old = [] then new else [])"
| "str_replace old new (c # s) =
     (if old = [] then new @ c # str_replace old new s
      else if prefix old (c # s) then new @ str_replace old new (drop (length old) (c # s))
      else c # str_replace old new s)"
  by pat_completeness auto
termination
  by (relation "measure (\<lambda>(old, new, s). length s)") auto

definition rectangle :: "int \<Rightarrow> int \<Rightarrow> int \<Rightarrow> int \<Rightarrow> 'p frame \<Rightarrow> 'p frame" where
  "rectangle l t r b fr = fr\<lparr>drawn := drawn fr @ [Rectangle l t r b]\<rparr>"

definition putText :: "string \<Rightarrow> int \<Rightarrow> int \<Rightarrow> 'p frame \<Rightarrow> 'p frame" where
  "putText s x y fr = fr\<lparr>drawn := drawn fr @ [PutText s x y]\<rparr>"

definition putTime :: "real \<Rightarrow> int \<Rightarrow> int \<Rightarrow> 'p frame \<Rightarrow> 'p frame" where
  "putTime ts x y fr = fr\<lparr>drawn := drawn fr @ [PutTime ts x y]\<rparr>"

definition log_image :: "string \<Rightarrow> 'p frame \<Rightarrow> 'p world \<Rightarrow> 'p world" where
  "log_image p fr w = w\<lparr>images := images w @ [(p, fr)]\<rparr>"

text \<open>\<^verbatim>\<open>out.write(frame)\<close>: a writer that is not opened drops the frame.\<close>

definition out_write :: "bool \<Rightarrow> 'p frame \<Rightarrow> 'p world \<Rightarrow> 'p world" where
  "out_write out fr w = (if out then w\<lparr>written := written w @ [fr]\<rparr> else w)"

text \<open>Modelled from the spec: \<^verbatim>\<open>face_recognition.compare_faces([known], enc, tolerance)[0]\<close>
  is a library function that is not part of the sources; the match rule is that a face matches
  iff its embedding's distance to the reference embedding is at most the tolerance.\<close>

definition compare_faces :: "('p, 'e) cv \<Rightarrow> 'e \<Rightarrow> 'e \<Rightarrow> real \<Rightarrow> bool" where
  "compare_faces c known enc tol = (face_distance c known enc \<le> tol)"

section \<open>app.py\<close>

definition load_person_encoding ::
  "('p, 'e) cv \<Rightarrow> 'e detector \<Rightarrow> (bool \<times> string) \<times> 'e detector" where
  "load_person_encoding c det =
     (case load_faces c (person_image_path det) of
        Inl e \<Rightarrow> ((False, ''Error loading person's image: '' @ e), det)
      | Inr [] \<Rightarrow>
          ((False, ''No face found in the person's image. Please use an image with a clear face.''),
           det)
      | Inr (x # _) \<Rightarrow>
          ((True, ''Successfully loaded person's face encoding.''),
           det\<lparr>person_encoding := Some x\<rparr>))"

text \<open>The body of \<^verbatim>\<open>if matches[0]:\<close> (lines 133 to 154). The division by \<open>fps\<close> raises when
  \<open>fps\<close> is 0, after the rectangle and the label have been drawn. The snapshot path is assigned
  before \<^verbatim>\<open>cv2.imwrite\<close> is called; an exception of that call leaves the function, and its return
  value is not looked at. The flag \<^verbatim>\<open>person_found_in_frame\<close> is set here and read nowhere.\<close>

definition on_match ::
  "('p, 'e) cv \<Rightarrow> int \<Rightarrow> string \<Rightarrow> box \<Rightarrow> 'p frame \<Rightarrow> 'p locals
     \<Rightarrow> exn option \<times> 'p frame \<times> 'p locals" where
  "on_match c fps path loc fr st =
     (case loc of (t, r, b, l) \<Rightarrow>
        let fr1 = putText ''PERSON FOUND!'' l (t - 10) (rectangle l t r b fr)
        in if fps = 0 then (Some ZeroDivisionError, fr1, st)
           else
             let timestamp = real (frame_count st) / real_of_int fps;
                 fr2 = putTime timestamp l (b + 25) fr1;
                 st1 = st\<lparr>detected_frames := detected_frames st + 1,
                          detection_timestamps := detection_timestamps st @ [timestamp]\<rparr>
             in (case detection_frame_path st1 of
                   None \<Rightarrow>
                     let p = str_replace ''.mp4'' ''_detection_frame.jpg'' path;
                         st2 = st1\<lparr>detection_frame_path := Some p\<rparr>
                     in (case imwrite c p of
                           ImRaises \<Rightarrow> (Some CvError, fr2, st2)
                         | ImReturns ok \<Rightarrow>
                             (None, fr2,
                              if ok then st2\<lparr>world := log_image p fr2 (world st2)\<rparr> else st2))
                 | Some _ \<Rightarrow> (None, fr2, st1)))"

text \<open>The loop over the faces of one sampled frame (line 128).\<close>

fun face_loop ::
  "('p, 'e) cv \<Rightarrow> 'e \<Rightarrow> real \<Rightarrow> int \<Rightarrow> string \<Rightarrow> (box \<times> 'e) list \<Rightarrow> 'p frame \<Rightarrow> 'p locals
     \<Rightarrow> exn option \<times> 'p frame \<times> 'p locals" where
  "face_loop c known tol fps path [] fr st = (None, fr, st)"
| "face_loop c known tol fps path ((loc, enc) # rest) fr st =
     (if compare_faces c known enc tol then
        (case on_match c fps path loc fr st of
           (Some e, fr', st') \<Rightarrow> (Some e, fr', st')
         | (None, fr', st') \<Rightarrow> face_loop c known tol fps path rest fr' st')
      else face_loop c known tol fps path rest fr st)"

text \<open>One iteration of \<^verbatim>\<open>while True\<close> after a successful \<^verbatim>\<open>video.read()\<close> (lines 117 to 164).
  \<^verbatim>\<open>frame_count % frame_skip\<close> raises when \<open>frame_skip\<close> is 0; the progress line divides by
  the reported frame count and raises when that is 0.\<close>

definition on_frame ::
  "('p, 'e) cv \<Rightarrow> 'e \<Rightarrow> real \<Rightarrow> int \<Rightarrow> string \<Rightarrow> bool \<Rightarrow> int \<Rightarrow> int \<Rightarrow> 'p \<Rightarrow> 'p locals
     \<Rightarrow> exn option \<times> 'p locals" where
  "on_frame c known tol fps path out frame_skip total_frames px st =
     (if frame_skip = 0 then (Some ZeroDivisionError, st)
      else if int (frame_count st) mod frame_skip = 0 then
        (case face_loop c known tol fps path (faces c px) \<lparr>pixels = px, drawn = []\<rparr> st of
           (Some e, fr, st1) \<Rightarrow> (Some e, st1)
         | (None, fr, st1) \<Rightarrow>
             let st2 = st1\<lparr>world := out_write out fr (world st1)\<rparr>
             in if frame_count st2 mod 100 = 0 \<and> total_frames = 0
                then (Some ZeroDivisionError, st2)
                else (None, st2\<lparr>frame_count := frame_count st2 + 1\<rparr>))
      else (None, st\<lparr>frame_count := frame_count st + 1\<rparr>))"

fun read_loop ::
  "('p, 'e) cv \<Rightarrow> 'e \<Rightarrow> real \<Rightarrow> int \<Rightarrow> string \<Rightarrow> bool \<Rightarrow> int \<Rightarrow> int \<Rightarrow> 'p list \<Rightarrow> 'p locals
     \<Rightarrow> exn option \<times> 'p locals" where
  "read_loop c known tol fps path out frame_skip total_frames [] st = (None, st)"
| "read_loop c known tol fps path out frame_skip total_frames (px # rest) st =
     (case on_frame c known tol fps path out frame_skip total_frames px st of
        (Some e, st') \<Rightarrow> (Some e, st')
      | (None, st') \<Rightarrow> read_loop c known tol fps path out frame_skip total_frames rest st')"

text \<open>Lines 90 to 101: \<^verbatim>\<open>avc1\<close> first; \<^verbatim>\<open>mp4v\<close> when the first handle is not opened, and again
  in the \<^verbatim>\<open>except\<close> branch when either call raised. An exception of the call in the \<^verbatim>\<open>except\<close>
  branch leaves the function. The handle of the last call is used whether it is opened or not.\<close>

definition log_writer :: "string \<Rightarrow> codec \<Rightarrow> 'p world \<Rightarrow> 'p world" where
  "log_writer path cc w = w\<lparr>writers := writers w @ [(path, cc)]\<rparr>"

definition except_writer ::
  "('p, 'e) cv \<Rightarrow> string \<Rightarrow> int \<Rightarrow> int \<times> int \<Rightarrow> 'p world \<Rightarrow> (exn + bool) \<times> 'p world" where
  "except_writer c path fps dims w =
     (case VideoWriter c path MP4V fps dims of
        CvRaises \<Rightarrow> (Inl CvError, log_writer path MP4V w)
      | Handle b \<Rightarrow> (Inr b, log_writer path MP4V w))"

definition open_writer ::
  "('p, 'e) cv \<Rightarrow> string \<Rightarrow> int \<Rightarrow> int \<times> int \<Rightarrow> 'p world \<Rightarrow> (exn + bool) \<times> 'p world" where
  "open_writer c path fps dims w =
     (case VideoWriter c path AVC1 fps dims of
        CvRaises \<Rightarrow> except_writer c path fps dims (log_writer path AVC1 w)
      | Handle True \<Rightarrow> (Inr True, log_writer path AVC1 w)
      | Handle False \<Rightarrow>
          (case VideoWriter c path MP4V fps dims of
             CvRaises \<Rightarrow>
               except_writer c path fps dims (log_writer path MP4V (log_writer path AVC1 w))
           | Handle b \<Rightarrow> (Inr b, log_writer path MP4V (log_writer path AVC1 w))))"

definition locals0 :: "'p world \<Rightarrow> 'p locals" where
  "locals0 w = \<lparr>frame_count = 0, detected_frames = 0, detection_timestamps = [],
                detection_frame_path = None, world = w\<rparr>"

definition summary_of :: "string \<Rightarrow> 'p locals \<Rightarrow> summary" where
  "summary_of path st =
     \<lparr>sum_total_frames = frame_count st,
      sum_detected_frames = detected_frames st,
      sum_detection_timestamps = detection_timestamps st,
      sum_output_video_path = path,
      sum_detection_frame_path = detection_frame_path st\<rparr>"

definition detect_person_in_video ::
  "('p, 'e) cv \<Rightarrow> 'e detector \<Rightarrow> string \<Rightarrow> real \<Rightarrow> int \<Rightarrow> 'p world
     \<Rightarrow> result outcome \<times> 'p world" where
  "detect_person_in_video c det path tol frame_skip w =
     (case person_encoding det of
        None \<Rightarrow> (Returned (Failure ''Person encoding not loaded.''), w)
      | Some known \<Rightarrow>
          let v = VideoCapture c (video_path det);
              w1 = w\<lparr>opened := opened w @ [video_path det]\<rparr>
          in if \<not> isOpened v then (Returned (Failure ''Could not open video file.''), w1)
             else
               let fps = py_int (CAP_PROP_FPS v);
                   width = py_int (CAP_PROP_FRAME_WIDTH v);
                   height = py_int (CAP_PROP_FRAME_HEIGHT v);
                   total_frames = py_int (CAP_PROP_FRAME_COUNT v)
               in (case open_writer c path fps (width, height) w1 of
                     (Inl e, w2) \<Rightarrow> (Raised e, w2)
                   | (Inr out, w2) \<Rightarrow>
                       (case read_loop c known tol fps path out frame_skip total_frames
                               (reads v) (locals0 w2) of
                          (Some e, st) \<Rightarrow> (Raised e, world st)
                        | (None, st) \<Rightarrow>
                            (Returned (Success (summary_of path st)), world st))))"

text \<open>The route \<^verbatim>\<open>/api/detect\<close> from the parameter checks on (lines 212 to 275), for an upload
  that passed the file checks: the status code and the body of the response. Saving and removing
  the uploaded files is outside the model. The outer \<^verbatim>\<open>except\<close> turns an exception into a 500.\<close>

datatype body = Error string | ServerError exn | Detection summary

definition detect_person ::
  "('p, 'e) cv \<Rightarrow> string \<Rightarrow> string \<Rightarrow> string \<Rightarrow> real \<Rightarrow> int \<Rightarrow> 'p world
     \<Rightarrow> (nat \<times> body) \<times> 'p world" where
  "detect_person c person_path crowd_path output_path tol frame_skip w =
     (if \<not> (0 \<le> tol \<and> tol \<le> 1) then
        ((400, Error ''Tolerance must be between 0.0 and 1.0''), w)
      else if frame_skip < 1 then ((400, Error ''Frame skip must be at least 1''), w)
      else
        (case load_person_encoding c (PersonDetector person_path crowd_path) of
           ((False, message), det) \<Rightarrow> ((400, Error message), w)
         | ((True, message), det) \<Rightarrow>
             (case detect_person_in_video c det output_path tol frame_skip w of
                (Raised e, w') \<Rightarrow> ((500, ServerError e), w')
              | (Returned (Failure msg), w') \<Rightarrow> ((500, Error msg), w')
              | (Returned (Success s), w') \<Rightarrow> ((200, Detection s), w'))))"

section \<open>person_detector.py\<close>

text \<open>The command-line variant writes no video: it saves the frame at every matching face as
  an image in the directory \<^verbatim>\<open>detected_frames\<close>, which the constructor makes when it is
  missing. What it prints is outside the model.\<close>

definition output_dir :: string where
  "output_dir = ''detected_frames''"

definition cli_init :: "string \<Rightarrow> string \<Rightarrow> 'p world \<Rightarrow> 'e detector \<times> 'p world" where
  "cli_init p v w =
     (PersonDetector p v,
      if output_dir \<in> set (dirs w) then w else w\<lparr>dirs := dirs w @ [output_dir]\<rparr>)"

definition cli_load_person_encoding :: "('p, 'e) cv \<Rightarrow> 'e detector \<Rightarrow> bool \<times> 'e detector" where
  "cli_load_person_encoding c det =
     (case load_faces c (person_image_path det) of
        Inl e \<Rightarrow> (False, det)
      | Inr [] \<Rightarrow> (False, det)
      | Inr (x # _) \<Rightarrow> (True, det\<lparr>person_encoding := Some x\<rparr>))"

text \<open>The decimal digits of a number, and the format \<^verbatim>\<open>{:0wd}\<close>.\<close>

fun str_nat :: "nat \<Rightarrow> string" where
  "str_nat n =
     (if n < 10 then [char_of (48 + n)] else str_nat (n div 10) @ [char_of (48 + n mod 10)])"

definition zero_pad :: "nat \<Rightarrow> nat \<Rightarrow> string" where
  "zero_pad width n = replicate (width - length (str_nat n)) CHR ''0'' @ str_nat n"

record 'p cli_locals =
  cli_frame_count :: nat
  cli_detected_frames :: nat
  cli_world :: "'p world"

definition cli_on_match ::
  "('p, 'e) cv \<Rightarrow> box \<Rightarrow> 'p frame \<Rightarrow> 'p cli_locals \<Rightarrow> exn option \<times> 'p frame \<times> 'p cli_locals" where
  "cli_on_match c loc fr st =
     (case loc of (t, r, b, l) \<Rightarrow>
        let frame_filename =
              ''frame_'' @ zero_pad 6 (cli_frame_count st) @ ''_detection_''
                @ zero_pad 3 (cli_detected_frames st) @ ''.jpg'';
            frame_path = output_dir @ ''/'' @ frame_filename;
            fr1 = putText ''PERSON FOUND!'' l (t - 10) (rectangle l t r b fr)
        in (case imwrite c frame_path of
              ImRaises \<Rightarrow> (Some CvError, fr1, st)
            | ImReturns ok \<Rightarrow>
                (None, fr1,
                 st\<lparr>cli_detected_frames := cli_detected_frames st + 1,
                    cli_world := (if ok then log_image frame_path fr1 (cli_world st)
                                  else cli_world st)\<rparr>)))"

fun cli_face_loop ::
  "('p, 'e) cv \<Rightarrow> 'e \<Rightarrow> real \<Rightarrow> (box \<times> 'e) list \<Rightarrow> 'p frame \<Rightarrow> 'p cli_locals
     \<Rightarrow> exn option \<times> 'p frame \<times> 'p cli_locals" where
  "cli_face_loop c known tol [] fr st = (None, fr, st)"
| "cli_face_loop c known tol ((loc, enc) # rest) fr st =
     (if compare_faces c known enc tol then
        (case cli_on_match c loc fr st of
           (Some e, fr', st') \<Rightarrow> (Some e, fr', st')
         | (None, fr', st') \<Rightarrow> cli_face_loop c known tol rest fr' st')
      else cli_face_loop c known tol rest fr st)"

definition cli_on_frame ::
  "('p, 'e) cv \<Rightarrow> 'e \<Rightarrow> real \<Rightarrow> int \<Rightarrow> 'p \<Rightarrow> 'p cli_locals \<Rightarrow> exn option \<times> 'p cli_locals" where
  "cli_on_frame c known tol frame_skip px st =
     (if frame_skip = 0 then (Some ZeroDivisionError, st)
      else if int (cli_frame_count st) mod frame_skip = 0 then
        (case cli_face_loop c known tol (faces c px) \<lparr>pixels = px, drawn = []\<rparr> st of
           (Some e, fr, st1) \<Rightarrow> (Some e, st1)
         | (None, fr, st1) \<Rightarrow> (None, st1\<lparr>cli_frame_count := cli_frame_count st1 + 1\<rparr>))
      else (None, st\<lparr>cli_frame_count := cli_frame_count st + 1\<rparr>))"

fun cli_read_loop ::
  "('p, 'e) cv \<Rightarrow> 'e \<Rightarrow> real \<Rightarrow> int \<Rightarrow> 'p list \<Rightarrow> 'p cli_locals \<Rightarrow> exn option \<times> 'p cli_locals" where
  "cli_read_loop c known tol frame_skip [] st = (None, st)"
| "cli_read_loop c known tol frame_skip (px # rest) st =
     (case cli_on_frame c known tol frame_skip px st of
        (Some e, st') \<Rightarrow> (Some e, st')
      | (None, st') \<Rightarrow> cli_read_loop c known tol frame_skip rest st')"

definition cli_detect_person_in_video ::
  "('p, 'e) cv \<Rightarrow> 'e detector \<Rightarrow> real \<Rightarrow> int \<Rightarrow> 'p world \<Rightarrow> exn option \<times> 'p world" where
  "cli_detect_person_in_video c det tol frame_skip w =
     (case person_encoding det of
        None \<Rightarrow> (None, w)
      | Some known \<Rightarrow>
          let v = VideoCapture c (video_path det);
              w1 = w\<lparr>opened := opened w @ [video_path det]\<rparr>
          in if \<not> isOpened v then (None, w1)
             else
               (case cli_read_loop c known tol frame_skip (reads v)
                       \<lparr>cli_frame_count = 0, cli_detected_frames = 0, cli_world = w1\<rparr> of
                  (e, st) \<Rightarrow> (e, cli_world st)))"

definition run_detection ::
  "('p, 'e) cv \<Rightarrow> 'e detector \<Rightarrow> real \<Rightarrow> int \<Rightarrow> 'p world \<Rightarrow> exn option \<times> 'p world" where
  "run_detection c det tol frame_skip w =
     (case cli_load_person_encoding c det of
        (False, det') \<Rightarrow> (None, w)
      | (True, det') \<Rightarrow> cli_detect_person_in_video c det' tol frame_skip w)"

section \<open>What a run is expected to produce\<close>

text \<open>The notions the properties are stated with, written from the specification's words: the
  matching faces of a frame, the sampled frames of a video, the detection events and the
  annotation of a frame.\<close>

definition is_match :: "('p, 'e) cv \<Rightarrow> 'e \<Rightarrow> real \<Rightarrow> box \<times> 'e \<Rightarrow> bool" where
  "is_match c known tol f = (face_distance c known (snd f) \<le> tol)"

definition matched :: "('p, 'e) cv \<Rightarrow> 'e \<Rightarrow> real \<Rightarrow> 'p \<Rightarrow> (box \<times> 'e) list" where
  "matched c known tol px = filter (is_match c known tol) (faces c px)"

text \<open>The raw frames with their indices, counted from \<open>m\<close>.\<close>

definition indexed :: "nat \<Rightarrow> 'p list \<Rightarrow> (nat \<times> 'p) list" where
  "indexed m pxs = zip [m ..< m + length pxs] pxs"

text \<open>A raw frame is sampled iff its index is divisible by the stride.\<close>

definition sampled :: "int \<Rightarrow> nat \<Rightarrow> 'p list \<Rightarrow> (nat \<times> 'p) list" where
  "sampled frame_skip m pxs = filter (\<lambda>(i, px). int i mod frame_skip = 0) (indexed m pxs)"

text \<open>The sampled frames that contain at least one match.\<close>

definition matched_frames ::
  "('p, 'e) cv \<Rightarrow> 'e \<Rightarrow> real \<Rightarrow> int \<Rightarrow> nat \<Rightarrow> 'p list \<Rightarrow> (nat \<times> 'p) list" where
  "matched_frames c known tol frame_skip m pxs =
     filter (\<lambda>(i, px). matched c known tol px \<noteq> []) (sampled frame_skip m pxs)"

text \<open>One event per matching face of every sampled frame, in processing order.\<close>

definition events ::
  "('p, 'e) cv \<Rightarrow> 'e \<Rightarrow> real \<Rightarrow> int \<Rightarrow> nat \<Rightarrow> 'p list \<Rightarrow> (nat \<times> 'p \<times> box) list" where
  "events c known tol frame_skip m pxs =
     concat (map (\<lambda>(i, px). map (\<lambda>f. (i, px, fst f)) (matched c known tol px))
                 (sampled frame_skip m pxs))"

text \<open>The three marks drawn for one matching face of frame \<open>i\<close>.\<close>

definition marks_for :: "int \<Rightarrow> nat \<Rightarrow> box \<Rightarrow> mark list" where
  "marks_for fps i loc =
     (case loc of (t, r, b, l) \<Rightarrow>
        [Rectangle l t r b, PutText ''PERSON FOUND!'' l (t - 10),
         PutTime (real i / real_of_int fps) l (b + 25)])"

definition annotate :: "('p, 'e) cv \<Rightarrow> 'e \<Rightarrow> real \<Rightarrow> int \<Rightarrow> nat \<times> 'p \<Rightarrow> 'p frame" where
  "annotate c known tol fps ip =
     \<lparr>pixels = snd ip,
      drawn = concat (map (\<lambda>f. marks_for fps (fst ip) (fst f)) (matched c known tol (snd ip)))\<rparr>"

text \<open>The snapshot of an event: the frame with the marks of that one face.\<close>

definition snapshot_of :: "int \<Rightarrow> nat \<times> 'p \<times> box \<Rightarrow> 'p frame" where
  "snapshot_of fps ev = \<lparr>pixels = fst (snd ev), drawn = marks_for fps (fst ev) (snd (snd ev))\<rparr>"

definition snapshot_path :: "string \<Rightarrow> string" where
  "snapshot_path path = str_replace ''.mp4'' ''_detection_frame.jpg'' path"

text \<open>The state after the faces of one sampled frame when nothing raises, for the matching
  faces \<open>ms\<close> of the frame; the state after one raw frame; the state in which \<^verbatim>\<open>cv2.imwrite\<close>
  raises at the first match; and the relation between the snapshot path and the number of
  images written.\<close>

definition after_faces ::
  "('p, 'e) cv \<Rightarrow> int \<Rightarrow> string \<Rightarrow> (box \<times> 'e) list \<Rightarrow> 'p frame \<Rightarrow> 'p locals \<Rightarrow> 'p locals" where
  "after_faces c fps path ms fr st =
     st\<lparr>detected_frames := detected_frames st + length ms,
        detection_timestamps :=
          detection_timestamps st @ replicate (length ms) (real (frame_count st) / real_of_int fps),
        detection_frame_path :=
          (case detection_frame_path st of
             None \<Rightarrow> if ms = [] then None else Some (snapshot_path path)
           | Some p \<Rightarrow> Some p),
        world :=
          (case detection_frame_path st of
             None \<Rightarrow>
               (case ms of
                  [] \<Rightarrow> world st
                | f # _ \<Rightarrow>
                    if imwrite c (snapshot_path path) = ImReturns True then
                      log_image (snapshot_path path)
                        (fr\<lparr>drawn := drawn fr @ marks_for fps (frame_count st) (fst f)\<rparr>) (world st)
                    else world st)
           | Some p \<Rightarrow> world st)\<rparr>"

definition after_frame ::
  "('p, 'e) cv \<Rightarrow> 'e \<Rightarrow> real \<Rightarrow> int \<Rightarrow> string \<Rightarrow> bool \<Rightarrow> int \<Rightarrow> 'p locals \<Rightarrow> 'p \<Rightarrow> 'p locals" where
  "after_frame c known tol fps path out frame_skip st px =
     (if int (frame_count st) mod frame_skip = 0 then
        (let st1 = after_faces c fps path (matched c known tol px) \<lparr>pixels = px, drawn = []\<rparr> st
         in st1\<lparr>frame_count := frame_count st + 1,
                world := out_write out (annotate c known tol fps (frame_count st, px)) (world st1)\<rparr>)
      else st\<lparr>frame_count := frame_count st + 1\<rparr>)"

definition snap_failed :: "int \<Rightarrow> string \<Rightarrow> 'p locals \<Rightarrow> 'p locals" where
  "snap_failed fps path st =
     st\<lparr>detected_frames := detected_frames st + 1,
        detection_timestamps :=
          detection_timestamps st @ [real (frame_count st) / real_of_int fps],
        detection_frame_path := Some (snapshot_path path)\<rparr>"

definition snap_inv :: "nat \<Rightarrow> 'p locals \<Rightarrow> bool" where
  "snap_inv n s =
     (length (images (world s)) \<le> n + 1
      \<and> (detection_frame_path s = None \<longrightarrow> length (images (world s)) = n))"


section \<open>A sample run\<close>

text \<open>Five raw frames at 30 frames per second. Frame content 2 shows two faces near the
  reference, content 3 a face far from it, content 0 no face. Images are written at paths that
  end in \<^verbatim>\<open>.jpg\<close> or \<^verbatim>\<open>.png\<close>; at any other path \<^verbatim>\<open>imwrite\<close> raises.\<close>

definition sample_faces :: "nat \<Rightarrow> (box \<times> real) list" where
  "sample_faces px =
     (if px = 2 then [((10, 50, 40, 20), 1 / 10), ((5, 90, 30, 60), 1 / 5)]
      else if px = 3 then [((1, 2, 3, 4), 9 / 10)] else [])"

definition sample_video :: "nat video" where
  "sample_video =
     \<lparr>isOpened = True, CAP_PROP_FPS = 30, CAP_PROP_FRAME_WIDTH = 640,
      CAP_PROP_FRAME_HEIGHT = 480, CAP_PROP_FRAME_COUNT = 5, reads = [3, 0, 2, 2, 2]\<rparr>"

definition sample_cv :: "(nat, real) cv" where
  "sample_cv =
     \<lparr>load_faces = (\<lambda>p. if p = ''person.png'' then Inr [0]
                         else if p = ''empty.png'' then Inr [] else Inl ''No such file''),
      VideoCapture = (\<lambda>p. sample_video),
      VideoWriter = (\<lambda>p cc fps dims. Handle True),
      imwrite = (\<lambda>p. if suffix ''.jpg'' p \<or> suffix ''.png'' p then ImReturns True else ImRaises),
      faces = sample_faces,
      face_distance = (\<lambda>a b. \<bar>a - b\<bar>)\<rparr>"

definition sample_det :: "real detector" where
  "sample_det = \<lparr>person_image_path = ''person.png'', video_path = ''crowd.mp4'',
                  person_encoding = Some 0\<rparr>"

definition sample_summary :: summary where
  "sample_summary =
     \<lparr>sum_total_frames = 5, sum_detected_frames = 4,
      sum_detection_timestamps = [1 / 15, 1 / 15, 2 / 15, 2 / 15],
      sum_output_video_path = ''out.mp4'',
      sum_detection_frame_path = Some ''out_detection_frame.jpg''\<rparr>"

definition sample_world :: "nat world" where
  "sample_world =
     \<lparr>opened = [''crowd.mp4''], writers = [(''out.mp4'', AVC1)],
      written =
        [\<lparr>pixels = 3, drawn = []\<rparr>,
         \<lparr>pixels = 2,
            drawn =
              [Rectangle 20 10 50 40, PutText ''PERSON FOUND!'' 20 0, PutTime (1 / 15) 20 65,
               Rectangle 60 5 90 30, PutText ''PERSON FOUND!'' 60 (- 5), PutTime (1 / 15) 60 55]\<rparr>,
         \<lparr>pixels = 2,
            drawn =
              [Rectangle 20 10 50 40, PutText ''PERSON FOUND!'' 20 0, PutTime (2 / 15) 20 65,
               Rectangle 60 5 90 30, PutText ''PERSON FOUND!'' 60 (- 5), PutTime (2 / 15) 60 55]\<rparr>],
      images =
        [(''out_detection_frame.jpg'',
          \<lparr>pixels = 2,
             drawn = [Rectangle 20 10 50 40, PutText ''PERSON FOUND!'' 20 0,
                      PutTime (1 / 15) 20 65]\<rparr>)],
      dirs = []\<rparr>"

definition sample_cv2 :: "(nat, real) cv" where
  "sample_cv2 = sample_cv\<lparr>VideoWriter := (\<lambda>p cc fps dims. Handle False)\<rparr>"

text \<open>The same capabilities with another video: one at 29.97 frames per second, one that
  reports a frame rate of 0, one that reports a frame count of 0, and one with a negative rate.\<close>

definition sample_with :: "nat video \<Rightarrow> (nat, real) cv" where
  "sample_with v = sample_cv\<lparr>VideoCapture := (\<lambda>p. v)\<rparr>"


definition still_video :: "nat video" where
  "still_video = sample_video\<lparr>CAP_PROP_FPS := 0\<rparr>"

definition uncounted_video :: "nat video" where
  "uncounted_video = sample_video\<lparr>CAP_PROP_FRAME_COUNT := 0\<rparr>"


section \<open>The loops in closed form\<close>

lemma is_match_compare: "is_match c known tol (loc, enc) = compare_faces c known enc tol"
  by (simp add: is_match_def compare_faces_def)

lemma on_match_fps0: "\<exists>fr'. on_match c 0 path loc fr st = (Some ZeroDivisionError, fr', st)"
  by (simp add: on_match_def split: prod.splits)

lemma on_match_set:
  assumes "fps \<noteq> 0" and "detection_frame_path st = Some p"
  shows "on_match c fps path loc fr st =
    (None, fr\<lparr>drawn := drawn fr @ marks_for fps (frame_count st) loc\<rparr>,
     st\<lparr>detected_frames := detected_frames st + 1,
        detection_timestamps :=
          detection_timestamps st @ [real (frame_count st) / real_of_int fps]\<rparr>)"
  using assms
  by (cases loc) (simp add: on_match_def marks_for_def Let_def putText_def putTime_def
      rectangle_def)

lemma on_match_first:
  assumes "fps \<noteq> 0" and "detection_frame_path st = None"
    and "imwrite c (snapshot_path path) = ImReturns ok"
  shows "on_match c fps path loc fr st =
    (None, fr\<lparr>drawn := drawn fr @ marks_for fps (frame_count st) loc\<rparr>,
     st\<lparr>detected_frames := detected_frames st + 1,
        detection_timestamps :=
          detection_timestamps st @ [real (frame_count st) / real_of_int fps],
        detection_frame_path := Some (snapshot_path path),
        world := (if ok then log_image (snapshot_path path)
                               (fr\<lparr>drawn := drawn fr @ marks_for fps (frame_count st) loc\<rparr>)
                               (world st)
                  else world st)\<rparr>)"
  using assms
  by (cases loc) (simp add: on_match_def marks_for_def snapshot_path_def Let_def putText_def
      putTime_def rectangle_def)

lemma on_match_raises:
  assumes "fps \<noteq> 0" and "detection_frame_path st = None"
    and "imwrite c (snapshot_path path) = ImRaises"
  shows "on_match c fps path loc fr st =
    (Some CvError, fr\<lparr>drawn := drawn fr @ marks_for fps (frame_count st) loc\<rparr>,
     snap_failed fps path st)"
  using assms
  by (cases loc) (simp add: on_match_def marks_for_def snapshot_path_def Let_def putText_def
      putTime_def rectangle_def snap_failed_def)

lemma after_faces_Nil: "after_faces c fps path [] fr st = st"
  by (simp add: after_faces_def split: option.splits)

lemma after_faces_frame_count [simp]:
  "frame_count (after_faces c fps path ms fr st) = frame_count st"
  by (simp add: after_faces_def)

lemma face_loop_set:
  assumes "fps \<noteq> 0" and "detection_frame_path st = Some p"
  shows "face_loop c known tol fps path fs fr st =
    (None,
     fr\<lparr>drawn := drawn fr @ concat (map (\<lambda>f. marks_for fps (frame_count st) (fst f))
                                      (filter (is_match c known tol) fs))\<rparr>,
     after_faces c fps path (filter (is_match c known tol) fs) fr st)"
  using assms(2)
proof (induction fs arbitrary: fr st)
  case Nil
  then show ?case by (simp add: after_faces_def)
next
  case (Cons f fs)
  obtain loc enc where f: "f = (loc, enc)" by (cases f)
  have cf: "compare_faces c known enc tol = is_match c known tol (loc, enc)"
    by (simp add: is_match_compare)
  show ?case
  proof (cases "is_match c known tol f")
    case False
    then show ?thesis using Cons.IH [OF Cons.prems, of fr]
      by (simp add: f cf)
  next
    case True
    let ?fr1 = "fr\<lparr>drawn := drawn fr @ marks_for fps (frame_count st) loc\<rparr>"
    let ?st1 = "st\<lparr>detected_frames := detected_frames st + 1,
        detection_timestamps :=
          detection_timestamps st @ [real (frame_count st) / real_of_int fps]\<rparr>"
    have p1: "detection_frame_path ?st1 = Some p" using Cons.prems by simp
    show ?thesis
      using True Cons.IH [OF p1, of ?fr1] Cons.prems
      by (simp add: f cf on_match_set [OF assms(1) Cons.prems]
          after_faces_def replicate_append_same)
  qed
qed

lemma face_loop_no_match:
  "filter (is_match c known tol) fs = [] \<Longrightarrow> face_loop c known tol fps path fs fr st = (None, fr, st)"
proof (induction fs)
  case Nil
  show ?case by simp
next
  case (Cons f fs)
  obtain loc enc where f: "f = (loc, enc)" by (cases f)
  have cf: "compare_faces c known enc tol = is_match c known tol (loc, enc)"
    by (simp add: is_match_compare)
  from Cons show ?case
    by (simp add: f cf split: if_splits)
qed

lemma face_loop_ok:
  assumes "fps \<noteq> 0"
    and "detection_frame_path st \<noteq> None \<or> imwrite c (snapshot_path path) \<noteq> ImRaises"
  shows "face_loop c known tol fps path fs fr st =
    (None,
     fr\<lparr>drawn := drawn fr @ concat (map (\<lambda>f. marks_for fps (frame_count st) (fst f))
                                      (filter (is_match c known tol) fs))\<rparr>,
     after_faces c fps path (filter (is_match c known tol) fs) fr st)"
proof (cases "detection_frame_path st")
  case (Some p)
  then show ?thesis by (rule face_loop_set [OF assms(1)])
next
  case None
  then obtain ok where ok: "imwrite c (snapshot_path path) = ImReturns ok"
    using assms(2) by (cases "imwrite c (snapshot_path path)") auto
  show ?thesis using None
  proof (induction fs arbitrary: fr)
    case Nil
    then show ?case by (simp add: after_faces_def)
  next
    case (Cons f fs)
    obtain loc enc where f: "f = (loc, enc)" by (cases f)
    have cf: "compare_faces c known enc tol = is_match c known tol (loc, enc)"
      by (simp add: is_match_compare)
  have cf: "compare_faces c known enc tol = is_match c known tol (loc, enc)"
    by (simp add: is_match_compare)
    show ?case
    proof (cases "is_match c known tol f")
      case False
      then show ?thesis using Cons.IH [OF Cons.prems, of fr]
        by (simp add: f cf)
    next
      case True
      let ?fr1 = "fr\<lparr>drawn := drawn fr @ marks_for fps (frame_count st) loc\<rparr>"
      let ?st1 = "st\<lparr>detected_frames := detected_frames st + 1,
        detection_timestamps :=
          detection_timestamps st @ [real (frame_count st) / real_of_int fps],
        detection_frame_path := Some (snapshot_path path),
        world := (if ok then log_image (snapshot_path path) ?fr1 (world st) else world st)\<rparr>"
      have p1: "detection_frame_path ?st1 = Some (snapshot_path path)" by simp
      have om: "on_match c fps path loc fr st = (None, ?fr1, ?st1)"
        by (rule on_match_first [OF assms(1) Cons.prems ok])
      show ?thesis
        using True face_loop_set [OF assms(1) p1, of c known tol path fs ?fr1] Cons.prems ok
        by (simp add: f cf om after_faces_def replicate_append_same)
    qed
  qed
qed

lemma face_loop_fps0:
  "\<exists>fr'. face_loop c known tol 0 path fs fr st =
     (if filter (is_match c known tol) fs = [] then None else Some ZeroDivisionError, fr', st)"
proof (induction fs arbitrary: fr st)
  case Nil
  show ?case by simp
next
  case (Cons f fs)
  obtain loc enc where f: "f = (loc, enc)" by (cases f)
  have cf: "compare_faces c known enc tol = is_match c known tol (loc, enc)"
    by (simp add: is_match_compare)
  show ?case
  proof (cases "is_match c known tol f")
    case False
    then show ?thesis using Cons.IH [of fr st]
      by (simp add: f cf)
  next
    case True
    obtain fr' where "on_match c 0 path loc fr st = (Some ZeroDivisionError, fr', st)"
      using on_match_fps0 by blast
    with True show ?thesis
      by (simp add: f cf)
  qed
qed

lemma face_loop_raises:
  assumes "fps \<noteq> 0" and "detection_frame_path st = None"
    and "imwrite c (snapshot_path path) = ImRaises"
    and "filter (is_match c known tol) fs \<noteq> []"
  shows "\<exists>fr'. face_loop c known tol fps path fs fr st = (Some CvError, fr', snap_failed fps path st)"
  using assms(4)
proof (induction fs)
  case Nil
  then show ?case by simp
next
  case (Cons f fs)
  obtain loc enc where f: "f = (loc, enc)" by (cases f)
  have cf: "compare_faces c known enc tol = is_match c known tol (loc, enc)"
    by (simp add: is_match_compare)
  show ?case
  proof (cases "is_match c known tol f")
    case False
    then show ?thesis using Cons by (simp add: f cf)
  next
    case True
    then show ?thesis
      by (simp add: f cf on_match_raises [OF assms(1-3)])
  qed
qed

text \<open>The three ways the loop over the faces of a frame can end.\<close>

lemma face_loop_cases:
  "(\<exists>fr'. face_loop c known tol fps path fs fr st = (Some ZeroDivisionError, fr', st)
        \<and> fps = 0 \<and> filter (is_match c known tol) fs \<noteq> [])
   \<or> (\<exists>fr'. face_loop c known tol fps path fs fr st = (Some CvError, fr', snap_failed fps path st)
        \<and> fps \<noteq> 0 \<and> detection_frame_path st = None
        \<and> imwrite c (snapshot_path path) = ImRaises
        \<and> filter (is_match c known tol) fs \<noteq> [])
   \<or> (face_loop c known tol fps path fs fr st =
        (None,
         fr\<lparr>drawn := drawn fr @ concat (map (\<lambda>f. marks_for fps (frame_count st) (fst f))
                                          (filter (is_match c known tol) fs))\<rparr>,
         after_faces c fps path (filter (is_match c known tol) fs) fr st)
        \<and> (filter (is_match c known tol) fs \<noteq> [] \<longrightarrow> fps \<noteq> 0))"
proof (cases "filter (is_match c known tol) fs = []")
  case True
  then show ?thesis
    using face_loop_no_match [of c known tol fs fps path fr st] by (simp add: after_faces_Nil)
next
  case False
  note ms = this
  show ?thesis
  proof (cases "fps = 0")
    case True
    then show ?thesis using face_loop_fps0 [of c known tol path fs fr st] ms by auto
  next
    case False
    note fps = this
    show ?thesis
    proof (cases "detection_frame_path st = None \<and> imwrite c (snapshot_path path) = ImRaises")
      case True
      then have a: "detection_frame_path st = None"
        and b: "imwrite c (snapshot_path path) = ImRaises" by simp_all
      from face_loop_raises [OF fps a b ms] obtain fr' where
        "face_loop c known tol fps path fs fr st = (Some CvError, fr', snap_failed fps path st)"
        by blast
      then show ?thesis using fps a b ms by blast
    next
      case False
      then have "detection_frame_path st \<noteq> None \<or> imwrite c (snapshot_path path) \<noteq> ImRaises"
        by auto
      from face_loop_ok [OF fps this] fps show ?thesis by simp
    qed
  qed
qed

lemma face_loop_None:
  assumes "face_loop c known tol fps path fs fr st = (None, fr', st')"
  shows "(filter (is_match c known tol) fs \<noteq> [] \<longrightarrow> fps \<noteq> 0)
    \<and> fr' = fr\<lparr>drawn := drawn fr @ concat (map (\<lambda>f. marks_for fps (frame_count st) (fst f))
                                      (filter (is_match c known tol) fs))\<rparr>
    \<and> st' = after_faces c fps path (filter (is_match c known tol) fs) fr st"
  using face_loop_cases [of c known tol fps path fs fr st] assms by auto

lemma face_loop_Some:
  assumes "face_loop c known tol fps path fs fr st = (Some e, fr', st')"
  shows "st' = st \<or> (st' = snap_failed fps path st \<and> detection_frame_path st = None)"
  using face_loop_cases [of c known tol fps path fs fr st] assms by auto

lemma on_frame_None:
  assumes "on_frame c known tol fps path out k tot px st = (None, st')"
  shows "k \<noteq> 0 \<and> st' = after_frame c known tol fps path out k st px
    \<and> (int (frame_count st) mod k = 0 \<and> matched c known tol px \<noteq> [] \<longrightarrow> fps \<noteq> 0)"
proof -
  have k: "k \<noteq> 0" using assms by (auto simp: on_frame_def)
  show ?thesis
  proof (cases "int (frame_count st) mod k = 0")
    case False
    then show ?thesis using assms k by (auto simp: on_frame_def after_frame_def)
  next
    case True
    obtain r fr1 st1 where fl:
      "face_loop c known tol fps path (faces c px) \<lparr>pixels = px, drawn = []\<rparr> st = (r, fr1, st1)"
      by (metis prod_cases3)
    have r: "r = None" using assms k True fl by (auto simp: on_frame_def split: option.splits)
    note ch = face_loop_None [OF fl [unfolded r]]
    have fr1: "fr1 = annotate c known tol fps (frame_count st, px)"
      using ch by (simp add: annotate_def matched_def)
    have st1: "st1 = after_faces c fps path (matched c known tol px) \<lparr>pixels = px, drawn = []\<rparr> st"
      using ch by (simp add: matched_def)
    have "st' = after_frame c known tol fps path out k st px"
      using assms k True fl r fr1 st1
      by (auto simp: on_frame_def after_frame_def Let_def split: if_splits)
    then show ?thesis using k ch by (simp add: matched_def)
  qed
qed

lemma on_frame_ok:
  assumes "k \<noteq> 0" "fps \<noteq> 0" "tot \<noteq> 0"
    and "detection_frame_path st \<noteq> None \<or> imwrite c (snapshot_path path) \<noteq> ImRaises"
  shows "on_frame c known tol fps path out k tot px st =
           (None, after_frame c known tol fps path out k st px)"
  using assms(1,3)
  by (simp add: on_frame_def after_frame_def Let_def face_loop_ok [OF assms(2,4)] annotate_def
      matched_def)

lemma read_loop_None:
  assumes "read_loop c known tol fps path out k tot pxs st = (None, st')"
  shows "st' = foldl (after_frame c known tol fps path out k) st pxs"
  using assms
proof (induction pxs arbitrary: st)
  case Nil
  then show ?case by simp
next
  case (Cons px pxs)
  obtain r st1 where o: "on_frame c known tol fps path out k tot px st = (r, st1)"
    by (cases "on_frame c known tol fps path out k tot px st")
  have r: "r = None" using Cons.prems o by (auto split: option.splits)
  have "st1 = after_frame c known tol fps path out k st px"
    using on_frame_None [OF o [unfolded r]] by simp
  moreover have "read_loop c known tol fps path out k tot pxs st1 = (None, st')"
    using Cons.prems o r by simp
  ultimately show ?case using Cons.IH by simp
qed

lemma indexed_Nil [simp]: "indexed m [] = []"
  by (simp add: indexed_def)

lemma indexed_Cons [simp]: "indexed m (px # pxs) = (m, px) # indexed (Suc m) pxs"
proof -
  have "[m ..< m + length (px # pxs)] = m # [Suc m ..< Suc m + length pxs]"
    by (subst upt_rec) simp
  then show ?thesis by (simp add: indexed_def del: upt_Suc)
qed

lemma sampled_Nil [simp]: "sampled k m [] = []"
  by (simp add: sampled_def)

lemma sampled_Cons:
  "sampled k m (px # pxs) =
     (if int m mod k = 0 then [(m, px)] else []) @ sampled k (Suc m) pxs"
  by (simp add: sampled_def)

lemma events_Nil [simp]: "events c known tol k m [] = []"
  by (simp add: events_def)

lemma events_Cons:
  "events c known tol k m (px # pxs) =
     (if int m mod k = 0 then map (\<lambda>f. (m, px, fst f)) (matched c known tol px) else [])
       @ events c known tol k (Suc m) pxs"
  by (simp add: events_def sampled_Cons)

lemma after_frame_frame_count [simp]:
  "frame_count (after_frame c known tol fps path out k st px) = Suc (frame_count st)"
  by (simp add: after_frame_def Let_def)

lemma after_frame_detected:
  "detected_frames (after_frame c known tol fps path out k st px) =
     detected_frames st + (if int (frame_count st) mod k = 0 then length (matched c known tol px) else 0)"
  by (simp add: after_frame_def Let_def after_faces_def)

lemma after_frame_timestamps:
  "detection_timestamps (after_frame c known tol fps path out k st px) =
     detection_timestamps st @
       (if int (frame_count st) mod k = 0
        then replicate (length (matched c known tol px)) (real (frame_count st) / real_of_int fps)
        else [])"
  by (simp add: after_frame_def Let_def after_faces_def)

lemma after_frame_path:
  "detection_frame_path (after_frame c known tol fps path out k st px) =
     (case detection_frame_path st of
        None \<Rightarrow> if int (frame_count st) mod k = 0 \<and> matched c known tol px \<noteq> []
                then Some (snapshot_path path) else None
      | Some p \<Rightarrow> Some p)"
  by (simp add: after_frame_def Let_def after_faces_def split: option.splits)

lemma after_frame_written:
  "written (world (after_frame c known tol fps path out k st px)) =
     written (world st) @
       (if out \<and> int (frame_count st) mod k = 0
        then [annotate c known tol fps (frame_count st, px)] else [])"
  by (simp add: after_frame_def Let_def after_faces_def out_write_def log_image_def
      split: option.splits list.splits)

lemma after_frame_images:
  "images (world (after_frame c known tol fps path out k st px)) =
     images (world st) @
       (case detection_frame_path st of
          None \<Rightarrow>
            (if int (frame_count st) mod k = 0 then
               (case matched c known tol px of
                  [] \<Rightarrow> []
                | f # _ \<Rightarrow>
                    if imwrite c (snapshot_path path) = ImReturns True
                    then [(snapshot_path path, snapshot_of fps (frame_count st, px, fst f))]
                    else [])
             else [])
        | Some p \<Rightarrow> [])"
  by (simp add: after_frame_def Let_def after_faces_def out_write_def log_image_def snapshot_of_def
      split: option.splits list.splits)


lemma fold_frame_count:
  "frame_count (foldl (after_frame c known tol fps path out k) st pxs) = frame_count st + length pxs"
  by (induction pxs arbitrary: st) simp_all

lemma fold_detected:
  "detected_frames (foldl (after_frame c known tol fps path out k) st pxs) =
     detected_frames st + length (events c known tol k (frame_count st) pxs)"
  by (induction pxs arbitrary: st) (simp_all add: after_frame_detected events_Cons)

lemma fold_timestamps:
  "detection_timestamps (foldl (after_frame c known tol fps path out k) st pxs) =
     detection_timestamps st
       @ map (\<lambda>ev. real (fst ev) / real_of_int fps) (events c known tol k (frame_count st) pxs)"
  by (induction pxs arbitrary: st)
     (simp_all add: after_frame_timestamps events_Cons map_replicate_const comp_def)

lemma fold_path:
  "detection_frame_path (foldl (after_frame c known tol fps path out k) st pxs) =
     (case detection_frame_path st of
        None \<Rightarrow> if events c known tol k (frame_count st) pxs = [] then None
                else Some (snapshot_path path)
      | Some p \<Rightarrow> Some p)"
  by (induction pxs arbitrary: st)
     (simp_all add: after_frame_path events_Cons split: option.splits)

lemma fold_written:
  "written (world (foldl (after_frame c known tol fps path out k) st pxs)) =
     written (world st)
       @ (if out then map (annotate c known tol fps) (sampled k (frame_count st) pxs) else [])"
  by (induction pxs arbitrary: st) (simp_all add: after_frame_written sampled_Cons)

lemma fold_images:
  "images (world (foldl (after_frame c known tol fps path out k) st pxs)) =
     images (world st)
       @ (case detection_frame_path st of
            None \<Rightarrow>
              (case events c known tol k (frame_count st) pxs of
                 [] \<Rightarrow> []
               | ev # _ \<Rightarrow>
                   if imwrite c (snapshot_path path) = ImReturns True
                   then [(snapshot_path path, snapshot_of fps ev)] else [])
          | Some p \<Rightarrow> [])"
proof (induction pxs arbitrary: st)
  case Nil
  show ?case by (simp split: option.splits)
next
  case (Cons px pxs)
  show ?case
    by (simp add: Cons.IH after_frame_images after_frame_path events_Cons
        split: option.splits list.splits)
qed


text \<open>The states in which one iteration can end, normally or by an exception.\<close>

lemma on_frame_cases:
  assumes "on_frame c known tol fps path out k tot px st = (r, st')"
  shows "st' = st \<or> (st' = snap_failed fps path st \<and> detection_frame_path st = None)
    \<or> st' = after_frame c known tol fps path out k st px
    \<or> st' = (after_frame c known tol fps path out k st px)\<lparr>frame_count := frame_count st\<rparr>"
proof (cases r)
  case None
  then show ?thesis
    using on_frame_None [of c known tol fps path out k tot px st st'] assms by simp
next
  case (Some e)
  show ?thesis
  proof (cases "k \<noteq> 0 \<and> int (frame_count st) mod k = 0")
    case False
    then show ?thesis using assms Some by (auto simp: on_frame_def split: if_splits)
  next
    case True
    obtain r1 fr1 st1 where fl:
      "face_loop c known tol fps path (faces c px) \<lparr>pixels = px, drawn = []\<rparr> st = (r1, fr1, st1)"
      by (metis prod_cases3)
    show ?thesis
    proof (cases r1)
      case (Some e1)
      then have "st1 = st \<or> (st1 = snap_failed fps path st \<and> detection_frame_path st = None)"
        using face_loop_Some [of c known tol fps path "faces c px" _ st e1 fr1 st1] fl by simp
      then show ?thesis using assms True fl Some by (auto simp: on_frame_def)
    next
      case None
      note ch = face_loop_None [OF fl [unfolded None]]
      have "st' = (after_frame c known tol fps path out k st px)\<lparr>frame_count := frame_count st\<rparr>"
        using assms True fl None ch \<open>r = Some e\<close>
        by (auto simp: on_frame_def after_frame_def Let_def annotate_def matched_def
            split: if_splits)
      then show ?thesis by simp
    qed
  qed
qed

lemma read_loop_invariant:
  assumes "read_loop c known tol fps path out k tot pxs st = (r, st')"
    and "P st"
    and step: "\<And>s px. P s \<Longrightarrow> P (after_frame c known tol fps path out k s px)"
    and count: "\<And>s n. P s \<Longrightarrow> P (s\<lparr>frame_count := n\<rparr>)"
    and failed: "\<And>s. P s \<Longrightarrow> detection_frame_path s = None \<Longrightarrow> P (snap_failed fps path s)"
  shows "P st'"
  using assms(1,2)
proof (induction pxs arbitrary: st)
  case Nil
  then show ?case by simp
next
  case (Cons px pxs)
  obtain r1 st1 where o: "on_frame c known tol fps path out k tot px st = (r1, st1)"
    by (cases "on_frame c known tol fps path out k tot px st")
  have P1: "P st1"
    using on_frame_cases [OF o] Cons.prems(2) step count failed by auto
  show ?case
  proof (cases r1)
    case None
    then show ?thesis using Cons.IH [of st1] Cons.prems(1) o P1 by simp
  next
    case (Some e)
    then show ?thesis using Cons.prems(1) o P1 by simp
  qed
qed

lemma read_loop_counter:
  assumes "read_loop c known tol fps path out k tot pxs st = (r, st')"
    and "detected_frames st = length (detection_timestamps st)"
  shows "detected_frames st' = length (detection_timestamps st')"
  by (rule read_loop_invariant [OF assms(1),
        where P = "\<lambda>s. detected_frames s = length (detection_timestamps s)"])
     (simp_all add: assms(2) after_frame_detected after_frame_timestamps snap_failed_def)

lemma read_loop_snap_inv:
  fixes st :: "'p locals"
  assumes "read_loop c known tol fps path out k tot pxs st = (r, st')"
    and "snap_inv n st"
  shows "snap_inv n st'"
proof (rule read_loop_invariant [OF assms(1), where P = "snap_inv n"])
  show "snap_inv n st" by (rule assms(2))
next
  fix s :: "'p locals" and px
  assume "snap_inv n s"
  then show "snap_inv n (after_frame c known tol fps path out k s px)"
    by (auto simp: snap_inv_def after_frame_images after_frame_path
        split: option.splits list.splits if_splits)
next
  fix s :: "'p locals" and m
  assume "snap_inv n s"
  then show "snap_inv n (s\<lparr>frame_count := m\<rparr>)"
    by (simp add: snap_inv_def)
next
  fix s :: "'p locals"
  assume "snap_inv n s" and "detection_frame_path s = None"
  then show "snap_inv n (snap_failed fps path s)"
    by (simp add: snap_inv_def snap_failed_def)
qed

lemma open_writer_world:
  assumes "open_writer c path fps dims w = (r, w2)"
  shows "opened w2 = opened w \<and> written w2 = written w \<and> images w2 = images w \<and> dirs w2 = dirs w"
  using assms
  by (auto simp: open_writer_def except_writer_def log_writer_def
      split: attempt.splits bool.splits if_splits)

section \<open>A whole run\<close>

lemma read_loop_None_side:
  assumes "read_loop c known tol fps path out k tot pxs st = (None, st')"
  shows "(pxs \<noteq> [] \<longrightarrow> k \<noteq> 0) \<and> (events c known tol k (frame_count st) pxs \<noteq> [] \<longrightarrow> fps \<noteq> 0)"
  using assms
proof (induction pxs arbitrary: st)
  case Nil
  then show ?case by simp
next
  case (Cons px pxs)
  obtain r st1 where o: "on_frame c known tol fps path out k tot px st = (r, st1)"
    by (cases "on_frame c known tol fps path out k tot px st")
  have r: "r = None" using Cons.prems o by (auto split: option.splits)
  note ch = on_frame_None [OF o [unfolded r]]
  have "read_loop c known tol fps path out k tot pxs st1 = (None, st')"
    using Cons.prems o r by simp
  from Cons.IH [OF this] ch show ?case
    by (auto simp: events_Cons split: if_splits)
qed

lemma open_writer_Inr:
  assumes "open_writer c path fps dims w = (Inr out, w2)"
  shows "out = (VideoWriter c path AVC1 fps dims = Handle True
                 \<or> VideoWriter c path MP4V fps dims = Handle True)"
  using assms
  by (auto simp: open_writer_def except_writer_def split: attempt.splits bool.splits if_splits)


text \<open>A run that returns a summary: the capture and the writer were opened without an
  exception and the loop ended normally.\<close>

lemma detect_Success:
  assumes "detect_person_in_video c det path tol k w = (Returned (Success s), w')"
    and "person_encoding det = Some known"
    and "v = VideoCapture c (video_path det)"
    and "fps = py_int (CAP_PROP_FPS v)"
  shows "\<exists>out w2. isOpened v
    \<and> open_writer c path fps
          (py_int (CAP_PROP_FRAME_WIDTH v), py_int (CAP_PROP_FRAME_HEIGHT v))
          (w\<lparr>opened := opened w @ [video_path det]\<rparr>) = (Inr out, w2)
    \<and> s = summary_of path (foldl (after_frame c known tol fps path out k) (locals0 w2) (reads v))
    \<and> w' = world (foldl (after_frame c known tol fps path out k) (locals0 w2) (reads v))
    \<and> (reads v \<noteq> [] \<longrightarrow> k \<noteq> 0)
    \<and> (events c known tol k 0 (reads v) \<noteq> [] \<longrightarrow> fps \<noteq> 0)"
proof -
  have op: "isOpened v"
    using assms by (auto simp: detect_person_in_video_def Let_def split: if_splits)
  obtain ro w2 where ow:
    "open_writer c path fps (py_int (CAP_PROP_FRAME_WIDTH v), py_int (CAP_PROP_FRAME_HEIGHT v))
          (w\<lparr>opened := opened w @ [video_path det]\<rparr>) = (ro, w2)"
    by (metis prod.exhaust)
  obtain out where ro: "ro = Inr out"
    using assms op ow by (cases ro) (auto simp: detect_person_in_video_def Let_def)
  obtain r st' where rl:
    "read_loop c known tol fps path out k (py_int (CAP_PROP_FRAME_COUNT v)) (reads v)
       (locals0 w2) = (r, st')"
    by (metis prod.exhaust)
  have r: "r = None" and s: "s = summary_of path st'" and w': "w' = world st'"
    using assms op ow ro rl
    by (cases r; simp add: detect_person_in_video_def Let_def)+
  have st': "st' = foldl (after_frame c known tol fps path out k) (locals0 w2) (reads v)"
    using read_loop_None [OF rl [unfolded r]] .
  have "frame_count (locals0 w2) = 0" by (simp add: locals0_def)
  then show ?thesis
    using op ow ro s w' st' read_loop_None_side [OF rl [unfolded r]] by auto
qed

lemma read_loop_counter_any:
  "read_loop c known tol fps path out k tot pxs (locals0 w) = (r, st') \<Longrightarrow>
   detected_frames st' = length (detection_timestamps st')"
  by (erule read_loop_counter) (simp add: locals0_def)

section \<open>The sample run evaluated\<close>

lemma sample_imwrite_jpg: "imwrite sample_cv ''out_detection_frame.jpg'' = ImReturns True"
  by (simp add: sample_cv_def suffix_to_prefix)

lemma sample_run:
  "detect_person_in_video sample_cv sample_det ''out.mp4'' (3 / 5) 2 world0
     = (Returned (Success sample_summary), sample_world)"
  by (simp add: detect_person_in_video_def sample_cv_def sample_det_def sample_video_def
      open_writer_def log_writer_def world0_def locals0_def on_frame_def on_match_def
      compare_faces_def sample_faces_def Let_def out_write_def log_image_def summary_of_def
      putText_def putTime_def rectangle_def sample_summary_def sample_world_def py_int_def
      suffix_to_prefix)

lemma sample_run2:
  "detect_person_in_video sample_cv2 sample_det ''other.mp4'' (3 / 5) 2 world0
     = (Returned (Success (sample_summary\<lparr>sum_output_video_path := ''other.mp4'',
            sum_detection_frame_path := Some ''other_detection_frame.jpg''\<rparr>)),
        world0\<lparr>opened := [''crowd.mp4''],
               writers := [(''other.mp4'', AVC1), (''other.mp4'', MP4V)],
               images := [(''other_detection_frame.jpg'',
                  \<lparr>pixels = 2,
                     drawn = [Rectangle 20 10 50 40, PutText ''PERSON FOUND!'' 20 0,
                              PutTime (1 / 15) 20 65]\<rparr>)]\<rparr>)"
  by (simp add: detect_person_in_video_def sample_cv2_def sample_cv_def sample_det_def
      sample_video_def open_writer_def log_writer_def world0_def locals0_def on_frame_def
      on_match_def compare_faces_def sample_faces_def Let_def out_write_def log_image_def
      summary_of_def putText_def putTime_def rectangle_def sample_summary_def py_int_def
      suffix_to_prefix)

lemma sample_loop:
  "read_loop sample_cv 0 (3 / 5) 30 ''out.mp4'' True 2 5 [3, 0, 2] (locals0 world0)
     = (None, \<lparr>frame_count = 3, detected_frames = 2, detection_timestamps = [1 / 15, 1 / 15],
               detection_frame_path = Some ''out_detection_frame.jpg'',
               world = \<lparr>opened = [], writers = [],
                 written = [\<lparr>pixels = 3, drawn = []\<rparr>,
                   \<lparr>pixels = 2,
                      drawn = [Rectangle 20 10 50 40, PutText ''PERSON FOUND!'' 20 0,
                               PutTime (1 / 15) 20 65, Rectangle 60 5 90 30,
                               PutText ''PERSON FOUND!'' 60 (- 5), PutTime (1 / 15) 60 55]\<rparr>],
                 images = [(''out_detection_frame.jpg'',
                   \<lparr>pixels = 2,
                      drawn = [Rectangle 20 10 50 40, PutText ''PERSON FOUND!'' 20 0,
                               PutTime (1 / 15) 20 65]\<rparr>)],
                 dirs = []\<rparr>\<rparr>)"
  by (simp add: sample_cv_def world0_def locals0_def on_frame_def on_match_def
      compare_faces_def sample_faces_def Let_def out_write_def log_image_def
      putText_def putTime_def rectangle_def suffix_to_prefix)




lemma sample_reads: "reads sample_video = [3, 0, 2, 2, 2]"
  by (simp add: sample_video_def)


lemma sample_matched_frames:
  "matched_frames sample_cv 0 (3 / 5) 2 0 [3, 0, 2, 2, 2] = [(2, 2), (4, 2)]"
  by (simp add: matched_frames_def sampled_Cons matched_def is_match_def sample_cv_def
      sample_faces_def)

lemma sample_writer: "VideoWriter sample_cv p cc fps dims = Handle True"
  by (simp add: sample_cv_def)

lemma sample_empty: "load_faces sample_cv ''empty.png'' = Inr []"
  by (simp add: sample_cv_def)




text \<open>The run on the video that reports a frame rate of 0: the first sampled frame has no
  match and is written, the second has one and the division raises.\<close>

lemma still_run:
  "detect_person_in_video (sample_with still_video) sample_det ''out.mp4'' (3 / 5) 2 world0
     = (Raised ZeroDivisionError,
        world0\<lparr>opened := [''crowd.mp4''], writers := [(''out.mp4'', AVC1)],
               written := [\<lparr>pixels = 3, drawn = []\<rparr>]\<rparr>)"
  by (simp add: detect_person_in_video_def sample_with_def still_video_def sample_cv_def
      sample_det_def sample_video_def open_writer_def log_writer_def world0_def locals0_def
      on_frame_def on_match_def compare_faces_def sample_faces_def Let_def out_write_def
      log_image_def summary_of_def putText_def putTime_def rectangle_def py_int_def)

text \<open>The run on the video that reports a frame count of 0: the progress line of the first
  frame raises after the frame has been written.\<close>

lemma uncounted_run:
  "detect_person_in_video (sample_with uncounted_video) sample_det ''out.mp4'' (3 / 5) 2 world0
     = (Raised ZeroDivisionError,
        world0\<lparr>opened := [''crowd.mp4''], writers := [(''out.mp4'', AVC1)],
               written := [\<lparr>pixels = 3, drawn = []\<rparr>]\<rparr>)"
  by (simp add: detect_person_in_video_def sample_with_def uncounted_video_def sample_cv_def
      sample_det_def sample_video_def open_writer_def log_writer_def world0_def locals0_def
      on_frame_def on_match_def compare_faces_def sample_faces_def Let_def out_write_def
      log_image_def summary_of_def putText_def putTime_def rectangle_def py_int_def)

text \<open>The run with an output path that has no \<^verbatim>\<open>.mp4\<close> in it and no image extension: at the
  first match \<^verbatim>\<open>imwrite\<close> is called at the output path and raises.\<close>

lemma avi_run:
  "detect_person_in_video sample_cv sample_det ''out.avi'' (3 / 5) 2 world0
     = (Raised CvError,
        world0\<lparr>opened := [''crowd.mp4''], writers := [(''out.avi'', AVC1)],
               written := [\<lparr>pixels = 3, drawn = []\<rparr>]\<rparr>)"
  by (simp add: detect_person_in_video_def sample_cv_def
      sample_det_def sample_video_def open_writer_def log_writer_def world0_def locals0_def
      on_frame_def on_match_def compare_faces_def sample_faces_def Let_def out_write_def
      log_image_def summary_of_def putText_def putTime_def rectangle_def py_int_def
      suffix_to_prefix)

section \<open>The counter and the timestamps\<close>

text \<open>
  C9. Throughout the scan and in the returned summary, \<^verbatim>\<open>detected_frames\<close> equals the length of
  \<^verbatim>\<open>detection_timestamps\<close>: the state the loop has reached after any number of raw frames,
  whether it ended normally or by an exception, has as many timestamps as the counter says, and
  so has the summary of a run that returns one.
\<close>

theorem counter_equals_timestamps:
  "(read_loop c known tol fps path out k tot pxs (locals0 w) = (r, st')
      \<longrightarrow> detected_frames st' = length (detection_timestamps st'))
   \<and> (detect_person_in_video c det path tol k w = (Returned (Success s), w')
      \<longrightarrow> sum_detected_frames s = length (sum_detection_timestamps s))"
proof (intro conjI impI)
  assume "read_loop c known tol fps path out k tot pxs (locals0 w) = (r, st')"
  then show "detected_frames st' = length (detection_timestamps st')"
    by (rule read_loop_counter_any)
next
  assume run: "detect_person_in_video c det path tol k w = (Returned (Success s), w')"
  then obtain known where known: "person_encoding det = Some known"
    by (cases "person_encoding det") (auto simp: detect_person_in_video_def)
  from detect_Success [OF run known refl refl]
  show "sum_detected_frames s = length (sum_detection_timestamps s)"
    by (auto simp: summary_of_def fold_detected fold_timestamps locals0_def)
qed

theorem counter_equals_timestamps_witness:
  "detect_person_in_video sample_cv sample_det ''out.mp4'' (3 / 5) 2 world0
     = (Returned (Success sample_summary), sample_world)
   \<and> sum_detected_frames sample_summary = length (sum_detection_timestamps sample_summary)
   \<and> fst (read_loop sample_cv 0 (3 / 5) 30 ''out.mp4'' True 2 5 [3, 0, 2] (locals0 world0)) = None
   \<and> detected_frames (snd (read_loop sample_cv 0 (3 / 5) 30 ''out.mp4'' True 2 5 [3, 0, 2]
         (locals0 world0))) = 2"
  using counter_equals_timestamps [of sample_cv 0 "3 / 5" 30 "''out.mp4''" True 2 5
      "[3, 0, 2]" world0 None
      "snd (read_loop sample_cv 0 (3 / 5) 30 ''out.mp4'' True 2 5 [3, 0, 2] (locals0 world0))"
      sample_det sample_summary sample_world]
    sample_run sample_loop
  by simp

section \<open>Order of the timestamps\<close>








section \<open>Determinism\<close>

lemma events_cong:
  assumes "faces c2 = faces c" and "face_distance c2 = face_distance c"
  shows "events c2 known tol k m pxs = events c known tol k m pxs"
proof -
  have "is_match c2 known tol = is_match c known tol"
    by (rule ext) (simp add: is_match_def assms)
  then show ?thesis by (simp add: events_def matched_def assms)
qed

text \<open>
  C8. For fixed inputs and parameters and a deterministic detection capability, two runs of the
  scan produce identical \<^verbatim>\<open>detection_timestamps\<close> and \<^verbatim>\<open>detected_frames\<close>. The capabilities are
  functions, so a run is a function of its inputs; beyond that, two runs that return a summary
  agree on both fields whenever they agree on the detector, the tolerance, the stride, the
  video source and the face capabilities, whatever the writer, the output path and the effects
  before the run are.
\<close>

theorem scan_deterministic:
  assumes "detect_person_in_video c det path tol k w = (Returned (Success s), w')"
    and "detect_person_in_video c2 det path2 tol k w2 = (Returned (Success s2), w2')"
    and "faces c2 = faces c"
    and "face_distance c2 = face_distance c"
    and "VideoCapture c2 = VideoCapture c"
  shows "sum_detection_timestamps s2 = sum_detection_timestamps s
    \<and> sum_detected_frames s2 = sum_detected_frames s"
proof -
  obtain known where known: "person_encoding det = Some known"
    using assms(1) by (cases "person_encoding det") (auto simp: detect_person_in_video_def)
  define v where "v = VideoCapture c (video_path det)"
  have v2: "v = VideoCapture c2 (video_path det)" by (simp add: v_def assms(5))
  define fps where "fps = py_int (CAP_PROP_FPS v)"
  from detect_Success [OF assms(1) known v_def fps_def] obtain out wa where
    s: "s = summary_of path
            (foldl (after_frame c known tol fps path out k) (locals0 wa) (reads v))"
    by blast
  from detect_Success [OF assms(2) known v2 fps_def] obtain out2 wb where
    s2: "s2 = summary_of path2
            (foldl (after_frame c2 known tol fps path2 out2 k) (locals0 wb) (reads v))"
    by blast
  show ?thesis
    by (simp add: s s2 summary_of_def fold_timestamps fold_detected locals0_def
        events_cong [OF assms(3,4)])
qed

theorem scan_deterministic_witness:
  "detect_person_in_video sample_cv sample_det ''out.mp4'' (3 / 5) 2 world0
     = (Returned (Success sample_summary), sample_world)
   \<and> fst (detect_person_in_video sample_cv2 sample_det ''other.mp4'' (3 / 5) 2 world0)
     = Returned (Success (sample_summary\<lparr>sum_output_video_path := ''other.mp4'',
            sum_detection_frame_path := Some ''other_detection_frame.jpg''\<rparr>))
   \<and> faces sample_cv2 = faces sample_cv
   \<and> face_distance sample_cv2 = face_distance sample_cv
   \<and> VideoCapture sample_cv2 = VideoCapture sample_cv
   \<and> sum_detected_frames (sample_summary\<lparr>sum_output_video_path := ''other.mp4'',
            sum_detection_frame_path := Some ''other_detection_frame.jpg''\<rparr>)
        = sum_detected_frames sample_summary"
  using scan_deterministic [OF sample_run sample_run2] sample_run sample_run2
  by (simp add: sample_cv2_def)

section \<open>Sampling\<close>

lemma indexed_nth: "indexed 0 pxs = map (\<lambda>i. (i, pxs ! i)) [0 ..< length pxs]"
  unfolding indexed_def
  by (rule nth_equalityI) auto

lemma sampled_nth:
  "sampled k 0 pxs = map (\<lambda>i. (i, pxs ! i)) (filter (\<lambda>i. int i mod k = 0) [0 ..< length pxs])"
  by (simp add: sampled_def indexed_nth filter_map comp_def)

lemma neg_div_step:
  fixes a k :: int
  assumes "1 \<le> k"
  shows "- ((- (a + 1)) div k) = - ((- a) div k) + (if a mod k = 0 then 1 else 0)"
proof -
  define q where "q = a div k"
  define r where "r = a mod k"
  have a: "a = k * q + r" by (simp add: q_def r_def)
  have r: "0 \<le> r" "r < k" using assms by (simp_all add: r_def)
  have d1: "(- (a + 1)) div k = - q - 1"
  proof (rule int_div_pos_eq)
    show "- (a + 1) = k * (- q - 1) + (k - r - 1)" by (simp add: a algebra_simps)
    show "0 \<le> k - r - 1" using r by simp
    show "k - r - 1 < k" using r by simp
  qed
  show ?thesis
  proof (cases "r = 0")
    case True
    have "(- a) div k = - q"
    proof (rule int_div_pos_eq)
      show "- a = k * (- q) + 0" by (simp add: a True)
      show "(0::int) \<le> 0" by simp
      show "0 < k" using assms by simp
    qed
    then show ?thesis using d1 True by (simp add: r_def)
  next
    case False
    have "(- a) div k = - q - 1"
    proof (rule int_div_pos_eq)
      show "- a = k * (- q - 1) + (k - r)" by (simp add: a algebra_simps)
      show "0 \<le> k - r" using r by simp
      show "k - r < k" using r False by simp
    qed
    then show ?thesis using d1 False by (simp add: r_def)
  qed
qed

lemma ceil_step:
  fixes k :: int
  assumes "1 \<le> k"
  shows "\<lceil>real (Suc n) / real_of_int k\<rceil>
           = \<lceil>real n / real_of_int k\<rceil> + (if int n mod k = 0 then 1 else 0)"
proof -
  have "\<lceil>real (Suc n) / real_of_int k\<rceil> = \<lceil>real_of_int (int n + 1) / real_of_int k\<rceil>"
    by (simp add: add.commute)
  also have "\<dots> = - ((- (int n + 1)) div k)"
    by (rule ceiling_divide_eq_div)
  also have "\<dots> = - ((- int n) div k) + (if int n mod k = 0 then 1 else 0)"
    by (rule neg_div_step [OF assms])
  also have "- ((- int n) div k) = \<lceil>real_of_int (int n) / real_of_int k\<rceil>"
    by (rule ceiling_divide_eq_div [symmetric])
  finally show ?thesis by simp
qed

lemma count_multiples:
  fixes k :: int
  assumes "1 \<le> k"
  shows "int (length (filter (\<lambda>i. int i mod k = 0) [0 ..< n])) = \<lceil>real n / real_of_int k\<rceil>"
proof (induction n)
  case 0
  show ?case by simp
next
  case (Suc n)
  have "int (length (filter (\<lambda>i. int i mod k = 0) [0 ..< Suc n]))
          = int (length (filter (\<lambda>i. int i mod k = 0) [0 ..< n]))
            + (if int n mod k = 0 then 1 else 0)"
    by simp
  also have "\<dots> = \<lceil>real n / real_of_int k\<rceil> + (if int n mod k = 0 then 1 else 0)"
    by (simp only: Suc.IH)
  also have "\<dots> = \<lceil>real (Suc n) / real_of_int k\<rceil>"
    by (rule ceil_step [OF assms, symmetric])
  finally show ?case .
qed

lemma sampled_count:
  fixes k :: int
  assumes "1 \<le> k"
  shows "int (length (sampled k 0 pxs)) = \<lceil>real (length pxs) / real_of_int k\<rceil>"
  by (simp add: sampled_nth count_multiples [OF assms])

lemma pixels_annotate1 [simp]: "pixels (annotate c known tol fps ip) = snd ip"
  by (simp add: annotate_def)

lemma pixels_annotate: "map pixels (map (annotate c known tol fps) ips) = map snd ips"
  by (simp add: comp_def)

text \<open>What holds of the sampling: in a run that returns a summary and whose writer was opened
  by one of the two codecs, the frames written are the annotated raw frames whose index is
  divisible by the stride, in order, every raw frame is counted, and the output has the ceiling
  of \<open>n / frame_skip\<close> frames.\<close>

lemma sampling_of_returning_run:
  assumes "1 \<le> k"
    and "detect_person_in_video c det path tol k w = (Returned (Success s), w')"
    and "person_encoding det = Some known"
    and "v = VideoCapture c (video_path det)"
    and "fps = py_int (CAP_PROP_FPS v)"
    and "dims = (py_int (CAP_PROP_FRAME_WIDTH v), py_int (CAP_PROP_FRAME_HEIGHT v))"
    and "VideoWriter c path AVC1 fps dims = Handle True
         \<or> VideoWriter c path MP4V fps dims = Handle True"
  shows "sampled k 0 (reads v)
           = map (\<lambda>i. (i, reads v ! i)) (filter (\<lambda>i. k dvd int i) [0 ..< length (reads v)])
    \<and> written w' = written w @ map (annotate c known tol fps) (sampled k 0 (reads v))
    \<and> map pixels (written w') = map pixels (written w) @ map snd (sampled k 0 (reads v))
    \<and> sum_total_frames s = length (reads v)
    \<and> int (length (written w'))
         = int (length (written w)) + \<lceil>real (length (reads v)) / real_of_int k\<rceil>"
proof -
  from detect_Success [OF assms(2-5)] obtain out w2 where
    ow: "open_writer c path fps dims (w\<lparr>opened := opened w @ [video_path det]\<rparr>) = (Inr out, w2)"
    and s: "s = summary_of path
            (foldl (after_frame c known tol fps path out k) (locals0 w2) (reads v))"
    and w': "w' = world
            (foldl (after_frame c known tol fps path out k) (locals0 w2) (reads v))"
    unfolding assms(6) by blast
  have out: "out" using open_writer_Inr [OF ow] assms(7) by simp
  have w2: "written w2 = written w" using open_writer_world [OF ow] by simp
  have wr: "written w' = written w @ map (annotate c known tol fps) (sampled k 0 (reads v))"
    by (simp add: w' fold_written out w2 locals0_def)
  have sa: "sampled k 0 (reads v)
           = map (\<lambda>i. (i, reads v ! i)) (filter (\<lambda>i. k dvd int i) [0 ..< length (reads v)])"
    by (simp add: sampled_nth mod_eq_0_iff_dvd)
  have px: "map pixels (written w') = map pixels (written w) @ map snd (sampled k 0 (reads v))"
    by (simp only: wr map_append pixels_annotate)
  have tf: "sum_total_frames s = length (reads v)"
    by (simp add: s summary_of_def fold_frame_count locals0_def)
  have "int (length (written w'))
         = int (length (written w)) + int (length (sampled k 0 (reads v)))"
    by (simp add: wr)
  then have ln: "int (length (written w'))
         = int (length (written w)) + \<lceil>real (length (reads v)) / real_of_int k\<rceil>"
    by (simp only: sampled_count [OF assms(1)])
  from sa wr px tf ln show ?thesis by blast
qed

text \<open>
  C3. The claim is that for every input video of \<open>n\<close> raw frames and every \<^verbatim>\<open>frame_skip\<close> of at
  least 1 the sampled frames are written to the output video, \<^verbatim>\<open>total_frames\<close> equals \<open>n\<close>
  and the output video has the ceiling of \<open>n / frame_skip\<close> frames. With a writer that neither
  codec opened, the run of 5 raw frames with stride 2 returns a summary with
  \<^verbatim>\<open>total_frames\<close> 5 and the output video has no frame, where 3 are due. On the video that reports
  a frame count of 0 the run raises at the first frame and returns no summary.
\<close>

theorem sampling_without_writer:
  "(1::int) \<le> 2
   \<and> length (reads sample_video) = 5
   \<and> fst (detect_person_in_video sample_cv2 sample_det ''other.mp4'' (3 / 5) 2 world0)
       = Returned (Success (sample_summary\<lparr>sum_output_video_path := ''other.mp4'',
            sum_detection_frame_path := Some ''other_detection_frame.jpg''\<rparr>))
   \<and> length (written (snd (detect_person_in_video sample_cv2 sample_det ''other.mp4'' (3 / 5) 2
        world0))) = 0
   \<and> \<lceil>5 / (2::real)\<rceil> = 3
   \<and> fst (detect_person_in_video (sample_with uncounted_video) sample_det ''out.mp4'' (3 / 5) 2
        world0) = Raised ZeroDivisionError"
proof -
  have "\<lceil>5 / (2::real)\<rceil> = 3" by (simp add: ceiling_eq_iff)
  then show ?thesis
    unfolding sample_run2 uncounted_run by (simp add: world0_def sample_reads)
qed

section \<open>The snapshot\<close>

lemma first_event:
  assumes "filter (\<lambda>(i, px). g px \<noteq> []) xs = (i, px) # rest"
  shows "\<exists>evs. concat (map (\<lambda>(i, px). map (\<lambda>f. (i, px, fst f)) (g px)) xs)
               = (i, px, fst (hd (g px))) # evs"
  using assms
proof (induction xs)
  case Nil
  then show ?case by simp
next
  case (Cons x xs)
  obtain j py where x: "x = (j, py)" by (cases x)
  show ?case
  proof (cases "g py = []")
    case True
    then show ?thesis using Cons by (simp add: x)
  next
    case False
    then have "j = i" "py = px" using Cons.prems by (simp_all add: x)
    moreover obtain f fs where "g px = f # fs" using False \<open>py = px\<close> by (cases "g px") auto
    ultimately show ?thesis by (simp add: x)
  qed
qed

lemma no_event:
  "filter (\<lambda>(i, px). g px \<noteq> []) xs = [] \<Longrightarrow>
   concat (map (\<lambda>(i, px). map (\<lambda>f. (i, px, fst f)) (g px)) xs) = []"
  by (induction xs) (auto split: if_splits)

lemma events_first:
  assumes "matched_frames c known tol k m pxs = (i, px) # rest"
  shows "\<exists>evs. events c known tol k m pxs = (i, px, fst (hd (matched c known tol px))) # evs"
  using first_event [of "matched c known tol" "sampled k m pxs" i px rest] assms
  by (simp add: matched_frames_def events_def)

lemma events_none:
  "matched_frames c known tol k m pxs = [] \<Longrightarrow> events c known tol k m pxs = []"
  using no_event [of "matched c known tol" "sampled k m pxs"]
  by (simp add: matched_frames_def events_def)

text \<open>Once the snapshot path is set, the loop changes neither the path nor the images.\<close>

lemma read_loop_snapshot_kept:
  fixes st :: "'p locals"
  assumes "read_loop c known tol fps path out k tot pxs st = (r, st')"
    and "detection_frame_path st = Some p"
  shows "detection_frame_path st' = Some p \<and> images (world st') = images (world st)"
proof (rule read_loop_invariant [OF assms(1),
      where P = "\<lambda>s. detection_frame_path s = Some p \<and> images (world s) = images (world st)"])
  show "detection_frame_path st = Some p \<and> images (world st) = images (world st)"
    using assms(2) by simp
next
  fix s :: "'p locals" and px
  assume "detection_frame_path s = Some p \<and> images (world s) = images (world st)"
  then show "detection_frame_path (after_frame c known tol fps path out k s px) = Some p
    \<and> images (world (after_frame c known tol fps path out k s px)) = images (world st)"
    by (simp add: after_frame_path after_frame_images)
next
  fix s :: "'p locals" and n
  assume "detection_frame_path s = Some p \<and> images (world s) = images (world st)"
  then show "detection_frame_path (s\<lparr>frame_count := n\<rparr>) = Some p
    \<and> images (world (s\<lparr>frame_count := n\<rparr>)) = images (world st)"
    by simp
next
  fix s :: "'p locals"
  assume "detection_frame_path s = Some p \<and> images (world s) = images (world st)"
    and "detection_frame_path s = None"
  then show "detection_frame_path (snap_failed fps path s) = Some p
    \<and> images (world (snap_failed fps path s)) = images (world st)"
    by simp
qed

text \<open>The world in which a run ends, whatever its outcome, is the world before it or the world
  of the state in which the loop ended.\<close>

lemma detect_world:
  "snd (detect_person_in_video c det path tol k w) = w
   \<or> (\<exists>known v fps dims ro w2 out r st'.
        person_encoding det = Some known \<and> v = VideoCapture c (video_path det)
        \<and> fps = py_int (CAP_PROP_FPS v)
        \<and> open_writer c path fps dims (w\<lparr>opened := opened w @ [video_path det]\<rparr>) = (ro, w2)
        \<and> (snd (detect_person_in_video c det path tol k w) = w\<lparr>opened := opened w @ [video_path det]\<rparr>
            \<or> snd (detect_person_in_video c det path tol k w) = w2
            \<or> (read_loop c known tol fps path out k (py_int (CAP_PROP_FRAME_COUNT v)) (reads v)
                  (locals0 w2) = (r, st')
                \<and> snd (detect_person_in_video c det path tol k w) = world st')))"
proof (cases "person_encoding det")
  case None
  then show ?thesis by (simp add: detect_person_in_video_def)
next
  case (Some known)
  define v where "v = VideoCapture c (video_path det)"
  define fps where "fps = py_int (CAP_PROP_FPS v)"
  define dims where "dims = (py_int (CAP_PROP_FRAME_WIDTH v), py_int (CAP_PROP_FRAME_HEIGHT v))"
  obtain ro w2 where ow:
    "open_writer c path fps dims (w\<lparr>opened := opened w @ [video_path det]\<rparr>) = (ro, w2)"
    by (metis prod.exhaust)
  show ?thesis
  proof (cases "isOpened v")
    case False
    then have "snd (detect_person_in_video c det path tol k w)
                 = w\<lparr>opened := opened w @ [video_path det]\<rparr>"
      using Some by (simp add: detect_person_in_video_def v_def Let_def)
    then show ?thesis using Some v_def fps_def ow by blast
  next
    case True
    show ?thesis
    proof (cases ro)
      case (Inl e)
      then have "snd (detect_person_in_video c det path tol k w) = w2"
        using Some True ow
        by (simp add: detect_person_in_video_def v_def fps_def dims_def Let_def)
      then show ?thesis using Some v_def fps_def ow by blast
    next
      case (Inr out)
      obtain r st' where rl:
        "read_loop c known tol fps path out k (py_int (CAP_PROP_FRAME_COUNT v)) (reads v)
           (locals0 w2) = (r, st')"
        by (metis prod.exhaust)
      have "snd (detect_person_in_video c det path tol k w) = world st'"
        using Some True ow Inr rl
        by (cases r) (simp_all add: detect_person_in_video_def v_def fps_def dims_def Let_def)
      then show ?thesis using Some v_def fps_def ow rl by blast
    qed
  qed
qed

text \<open>Every run, whatever its outcome, writes at most one image.\<close>

lemma detect_images_bound:
  "length (images (snd (detect_person_in_video c det path tol k w))) \<le> length (images w) + 1"
proof -
  from detect_world [of c det path tol k w]
  consider "snd (detect_person_in_video c det path tol k w) = w"
    | ro w2 fps dims where
      "open_writer c path fps dims (w\<lparr>opened := opened w @ [video_path det]\<rparr>) = (ro, w2)"
      "snd (detect_person_in_video c det path tol k w) = w\<lparr>opened := opened w @ [video_path det]\<rparr>
       \<or> snd (detect_person_in_video c det path tol k w) = w2"
    | ro w2 fps dims known out tot pxs r st' where
      "open_writer c path fps dims (w\<lparr>opened := opened w @ [video_path det]\<rparr>) = (ro, w2)"
      "read_loop c known tol fps path out k tot pxs (locals0 w2) = (r, st')"
      "snd (detect_person_in_video c det path tol k w) = world st'"
    by blast
  then show ?thesis
  proof cases
    case 1
    then show ?thesis by simp
  next
    case 2
    then show ?thesis using open_writer_world [OF 2(1)] by auto
  next
    case 3
    have w2: "images w2 = images w" using open_writer_world [OF 3(1)] by simp
    have "snap_inv (length (images w)) (locals0 w2)"
      by (simp add: snap_inv_def locals0_def w2)
    from read_loop_snap_inv [OF 3(2) this] show ?thesis
      by (simp add: snap_inv_def 3(3))
  qed
qed

text \<open>In a run that returns a summary the snapshot, when \<^verbatim>\<open>cv2.imwrite\<close> has written it, is the
  first sampled frame that contains a match, with the marks of its first matching face.\<close>

lemma snapshot_of_returning_run:
  assumes "detect_person_in_video c det path tol k w = (Returned (Success s), w')"
    and "person_encoding det = Some known"
    and "v = VideoCapture c (video_path det)"
    and "fps = py_int (CAP_PROP_FPS v)"
  shows "case matched_frames c known tol k 0 (reads v) of
             [] \<Rightarrow> images w' = images w \<and> sum_detection_frame_path s = None
           | (i, px) # later \<Rightarrow>
               images w' = images w @
                 (if imwrite c (snapshot_path path) = ImReturns True
                  then [(snapshot_path path,
                         snapshot_of fps (i, px, fst (hd (matched c known tol px))))]
                  else [])
               \<and> sum_detection_frame_path s = Some (snapshot_path path)"
proof -
  from detect_Success [OF assms] obtain out2 w2 where
    ow: "open_writer c path fps (py_int (CAP_PROP_FRAME_WIDTH v), py_int (CAP_PROP_FRAME_HEIGHT v))
          (w\<lparr>opened := opened w @ [video_path det]\<rparr>) = (Inr out2, w2)"
    and s: "s = summary_of path
            (foldl (after_frame c known tol fps path out2 k) (locals0 w2) (reads v))"
    and w': "w' = world
            (foldl (after_frame c known tol fps path out2 k) (locals0 w2) (reads v))"
    by blast
  have w2: "images w2 = images w" using open_writer_world [OF ow] by simp
  show ?thesis
  proof (cases "matched_frames c known tol k 0 (reads v)")
    case Nil
    then have "events c known tol k 0 (reads v) = []" by (rule events_none)
    then show ?thesis
      by (simp add: Nil s w' summary_of_def fold_images fold_path locals0_def w2)
  next
    case (Cons ip later)
    obtain i px where ip: "ip = (i, px)" by (cases ip)
    from events_first [OF Cons [unfolded ip]] obtain evs where
      "events c known tol k 0 (reads v) = (i, px, fst (hd (matched c known tol px))) # evs"
      by blast
    then show ?thesis
      by (simp add: Cons ip s w' summary_of_def fold_images fold_path locals0_def w2)
  qed
qed

lemma still_matched_frames:
  "matched_frames (sample_with still_video) 0 (3 / 5) 2 0 (reads still_video) = [(2, 2), (4, 2)]"
  by (simp add: matched_frames_def sampled_Cons matched_def is_match_def sample_with_def
      still_video_def sample_video_def sample_cv_def sample_faces_def)

text \<open>
  C4. The claim is that in every run in which a match occurs the snapshot is written exactly
  once, for the first sampled frame that contains a match. On the video that reports a frame
  rate of 0 two sampled frames contain a match, the division of line 140 raises at the first of
  them before \<^verbatim>\<open>cv2.imwrite\<close> is reached, and the run ends with no snapshot. With the output
  path \<^verbatim>\<open>out.avi\<close> the snapshot path is the output path, \<^verbatim>\<open>cv2.imwrite\<close> raises there, and
  again no snapshot is written.
\<close>

theorem match_without_snapshot:
  "matched_frames (sample_with still_video) 0 (3 / 5) 2 0 (reads still_video) = [(2, 2), (4, 2)]
   \<and> py_int (CAP_PROP_FPS still_video) = 0
   \<and> fst (detect_person_in_video (sample_with still_video) sample_det ''out.mp4'' (3 / 5) 2 world0)
       = Raised ZeroDivisionError
   \<and> images (snd (detect_person_in_video (sample_with still_video) sample_det ''out.mp4'' (3 / 5)
        2 world0)) = []
   \<and> matched_frames sample_cv 0 (3 / 5) 2 0 (reads sample_video) = [(2, 2), (4, 2)]
   \<and> fst (detect_person_in_video sample_cv sample_det ''out.avi'' (3 / 5) 2 world0)
       = Raised CvError
   \<and> images (snd (detect_person_in_video sample_cv sample_det ''out.avi'' (3 / 5) 2 world0)) = []"
proof -
  have "py_int (CAP_PROP_FPS still_video) = 0"
    by (simp add: still_video_def py_int_def)
  then show ?thesis
    unfolding still_run avi_run
    by (simp add: still_matched_frames sample_reads sample_matched_frames world0_def)
qed

section \<open>The match rule\<close>

lemma is_match_distance: "is_match c known tol = (\<lambda>f. face_distance c known (snd f) \<le> tol)"
  by (rule ext) (simp add: is_match_def)

text \<open>
  C5. For every detected face in a sampled frame, the face counts as a match iff the distance
  between its embedding and the reference embedding is at most the tolerance; with tolerance 0
  only a face whose distance to the reference is exactly 0 matches. The faces that the loop over
  one frame counts and marks are those within the tolerance, one count and one group of marks
  per such face; distances are non-negative. The loop is taken where it does not raise: the
  frame rate is not 0 and \<^verbatim>\<open>cv2.imwrite\<close>, if the snapshot is still to be written, does not
  raise at the snapshot path.
\<close>

theorem match_rule:
  assumes "fps \<noteq> 0"
    and "\<forall>e. 0 \<le> face_distance c known e"
    and "detection_frame_path st \<noteq> None \<or> imwrite c (snapshot_path path) \<noteq> ImRaises"
    and "face_loop c known tol fps path fs fr st = (r, fr', st')"
  shows "r = None
    \<and> detected_frames st'
        = detected_frames st + length (filter (\<lambda>f. face_distance c known (snd f) \<le> tol) fs)
    \<and> drawn fr'
        = drawn fr @ concat (map (\<lambda>f. marks_for fps (frame_count st) (fst f))
                                (filter (\<lambda>f. face_distance c known (snd f) \<le> tol) fs))
    \<and> (tol = 0 \<longrightarrow>
         detected_frames st'
           = detected_frames st + length (filter (\<lambda>f. face_distance c known (snd f) = 0) fs))"
proof -
  have eq: "(r, fr', st') =
    (None,
     fr\<lparr>drawn := drawn fr @ concat (map (\<lambda>f. marks_for fps (frame_count st) (fst f))
                                      (filter (is_match c known tol) fs))\<rparr>,
     after_faces c fps path (filter (is_match c known tol) fs) fr st)"
    using face_loop_ok [OF assms(1,3), of known tol fs fr] assms(4) by simp
  have z: "filter (\<lambda>f. face_distance c known (snd f) \<le> 0) fs
           = filter (\<lambda>f. face_distance c known (snd f) = 0) fs"
    using assms(2) by (intro filter_cong refl) (auto intro: antisym)
  have d: "detected_frames st'
        = detected_frames st + length (filter (\<lambda>f. face_distance c known (snd f) \<le> tol) fs)"
    using eq by (simp add: after_faces_def is_match_distance)
  have m: "drawn fr'
        = drawn fr @ concat (map (\<lambda>f. marks_for fps (frame_count st) (fst f))
                                (filter (\<lambda>f. face_distance c known (snd f) \<le> tol) fs))"
    using eq by (simp add: is_match_distance)
  have "tol = 0 \<longrightarrow>
         detected_frames st'
           = detected_frames st + length (filter (\<lambda>f. face_distance c known (snd f) = 0) fs)"
    using d z by auto
  moreover have "r = None" using eq by simp
  ultimately show ?thesis using d m by blast
qed

theorem match_rule_witness:
  "(30::int) \<noteq> 0
   \<and> (\<forall>e. 0 \<le> face_distance sample_cv 0 e)
   \<and> imwrite sample_cv (snapshot_path ''out.mp4'') \<noteq> ImRaises
   \<and> detected_frames (snd (snd (face_loop sample_cv 0 (3 / 5) 30 ''out.mp4''
         [((10, 50, 40, 20), 1 / 10), ((1, 2, 3, 4), 9 / 10)]
         \<lparr>pixels = 0, drawn = []\<rparr> (locals0 world0)))) = 1"
proof -
  let ?r = "face_loop sample_cv 0 (3 / 5) 30 ''out.mp4''
         [((10, 50, 40, 20), 1 / 10), ((1, 2, 3, 4), 9 / 10)]
         \<lparr>pixels = 0::nat, drawn = []\<rparr> (locals0 world0)"
  have h1: "(30::int) \<noteq> 0" by simp
  have h2: "\<forall>e. 0 \<le> face_distance sample_cv 0 e" by (simp add: sample_cv_def)
  have h3: "imwrite sample_cv (snapshot_path ''out.mp4'') \<noteq> ImRaises"
    by (simp add: snapshot_path_def sample_imwrite_jpg)
  then have h3': "detection_frame_path (locals0 (world0 :: nat world)) \<noteq> None
                  \<or> imwrite sample_cv (snapshot_path ''out.mp4'') \<noteq> ImRaises"
    by simp
  have h4: "?r = (fst ?r, fst (snd ?r), snd (snd ?r))" by simp
  from match_rule [OF h1 h2 h3' h4] have "detected_frames (snd (snd ?r)) = 1"
    by (simp add: sample_cv_def locals0_def)
  with h1 h2 h3 show ?thesis by blast
qed

section \<open>Faces and frames\<close>

text \<open>
  C1. The claim is that a sampled frame adds at most 1 to \<^verbatim>\<open>detected_frames\<close> and exactly one
  timestamp when it has a match, however many of its faces match. In the sample run two sampled
  frames contain a match, each with two matching faces, and the summary reports 4 detected
  frames and 4 timestamps: the counter and the list grow once per matching face.
\<close>

theorem counts_faces_not_frames:
  "detect_person_in_video sample_cv sample_det ''out.mp4'' (3 / 5) 2 world0
     = (Returned (Success sample_summary), sample_world)
   \<and> matched_frames sample_cv 0 (3 / 5) 2 0 (reads sample_video) = [(2, 2), (4, 2)]
   \<and> sum_detected_frames sample_summary = 4
   \<and> sum_detection_timestamps sample_summary = [1 / 15, 1 / 15, 2 / 15, 2 / 15]"
  by (simp add: sample_run sample_reads sample_matched_frames sample_summary_def)

section \<open>The output writer\<close>

text \<open>
  C2. The claim is that the run fails fatally when neither codec can be initialised. With a
  \<^verbatim>\<open>cv2.VideoWriter\<close> whose handle is not opened for \<^verbatim>\<open>avc1\<close> and for \<^verbatim>\<open>mp4v\<close>, both codecs
  are tried in that order, the scan then runs to the end, no frame reaches the output video, and
  the run returns a summary that names the output video.
\<close>

theorem unopened_writer_continues:
  "VideoWriter sample_cv2 ''other.mp4'' AVC1 30 (640, 480) = Handle False
   \<and> VideoWriter sample_cv2 ''other.mp4'' MP4V 30 (640, 480) = Handle False
   \<and> fst (detect_person_in_video sample_cv2 sample_det ''other.mp4'' (3 / 5) 2 world0)
       = Returned (Success (sample_summary\<lparr>sum_output_video_path := ''other.mp4'',
            sum_detection_frame_path := Some ''other_detection_frame.jpg''\<rparr>))
   \<and> writers (snd (detect_person_in_video sample_cv2 sample_det ''other.mp4'' (3 / 5) 2 world0))
       = [(''other.mp4'', AVC1), (''other.mp4'', MP4V)]
   \<and> written (snd (detect_person_in_video sample_cv2 sample_det ''other.mp4'' (3 / 5) 2 world0))
       = []"
proof -
  have "VideoWriter sample_cv2 p cc fps dims = Handle False" for p cc fps dims
    by (simp add: sample_cv2_def)
  then show ?thesis
    unfolding sample_run2 by (simp add: world0_def)
qed

section \<open>A reference image without a face\<close>

lemma cli_init_world:
  "opened (snd (cli_init p vp w)) = opened w \<and> writers (snd (cli_init p vp w)) = writers w
   \<and> written (snd (cli_init p vp w)) = written w \<and> images (snd (cli_init p vp w)) = images w"
  by (simp add: cli_init_def)

text \<open>
  C6. If the reference image contains no detectable face, reference encoding fails before any
  video I/O occurs, scanning never starts, and no output video or snapshot is created:
  \<^verbatim>\<open>load_person_encoding\<close> returns \<^verbatim>\<open>False\<close> with the message of the missing face and leaves
  the encoding unset; the route answers 400 with that message and has no effect;
  \<^verbatim>\<open>detect_person_in_video\<close> on that detector refuses to scan; and \<^verbatim>\<open>run_detection\<close> of the
  command-line variant returns with no effect beyond the directory its constructor made.
\<close>

theorem no_reference_face:
  assumes "load_faces c p = Inr []"
  shows "load_person_encoding c (PersonDetector p vp)
           = ((False,
               ''No face found in the person's image. Please use an image with a clear face.''),
              PersonDetector p vp)
    \<and> snd (detect_person c p vp outp tol k w) = w
    \<and> (0 \<le> tol \<and> tol \<le> 1 \<and> 1 \<le> k \<longrightarrow>
         fst (detect_person c p vp outp tol k w)
           = (400, Error
               ''No face found in the person's image. Please use an image with a clear face.''))
    \<and> detect_person_in_video c (snd (load_person_encoding c (PersonDetector p vp))) outp tol k w
           = (Returned (Failure ''Person encoding not loaded.''), w)
    \<and> run_detection c (fst (cli_init p vp w)) tol k (snd (cli_init p vp w))
           = (None, snd (cli_init p vp w))
    \<and> opened (snd (cli_init p vp w)) = opened w
    \<and> written (snd (cli_init p vp w)) = written w
    \<and> images (snd (cli_init p vp w)) = images w"
proof -
  have l: "load_person_encoding c (PersonDetector p vp)
           = ((False,
               ''No face found in the person's image. Please use an image with a clear face.''),
              PersonDetector p vp)"
    using assms by (simp add: load_person_encoding_def PersonDetector_def)
  have d1: "snd (detect_person c p vp outp tol k w) = w"
    by (simp add: detect_person_def l)
  have d2: "0 \<le> tol \<and> tol \<le> 1 \<and> 1 \<le> k \<longrightarrow>
         fst (detect_person c p vp outp tol k w)
           = (400, Error
               ''No face found in the person's image. Please use an image with a clear face.'')"
    by (simp add: detect_person_def l)
  have d3: "detect_person_in_video c (snd (load_person_encoding c (PersonDetector p vp))) outp tol k w
           = (Returned (Failure ''Person encoding not loaded.''), w)"
    unfolding l by (simp add: detect_person_in_video_def PersonDetector_def)
  have d4: "run_detection c (fst (cli_init p vp w)) tol k (snd (cli_init p vp w))
           = (None, snd (cli_init p vp w))"
    using assms
    by (simp add: run_detection_def cli_load_person_encoding_def cli_init_def PersonDetector_def)
  from l d1 d2 d3 d4 cli_init_world [of p vp w] show ?thesis by blast
qed

theorem no_reference_face_witness:
  "load_faces sample_cv ''empty.png'' = Inr []
   \<and> (0::real) \<le> 3 / 5 \<and> (3 / 5 :: real) \<le> 1 \<and> (1::int) \<le> 2
   \<and> detect_person sample_cv ''empty.png'' ''crowd.mp4'' ''out.mp4'' (3 / 5) 2 world0
       = ((400, Error
            ''No face found in the person's image. Please use an image with a clear face.''),
          world0)
   \<and> run_detection sample_cv (PersonDetector ''empty.png'' ''crowd.mp4'') (3 / 5) 2
        (world0\<lparr>dirs := [''detected_frames'']\<rparr>)
       = (None, world0\<lparr>dirs := [''detected_frames'']\<rparr>)"
proof -
  have c: "cli_init ''empty.png'' ''crowd.mp4'' (world0 :: nat world)
             = (PersonDetector ''empty.png'' ''crowd.mp4'', world0\<lparr>dirs := [''detected_frames'']\<rparr>)"
    by (simp add: cli_init_def world0_def output_dir_def)
  from no_reference_face [OF sample_empty, of "''crowd.mp4''" "''out.mp4''" "3 / 5" 2 world0]
  show ?thesis
    by (simp add: sample_empty c prod_eq_iff)
qed

section \<open>The snapshot path\<close>












end
